theory Spec2Isabelle
  imports Main "HOL-Library.Sublist"
begin

section \<open>The eSIM booking bot (examples/esim\_booking\_bot.py)\<close>

text \<open>
  The development embeds the booking logic of class \<open>EsimBookingBot\<close>: the field
  validators, the slot registry \<open>booked_slots\<close>, the booking store (\<open>requests\<close>,
  \<open>user_requests\<close>), the per-user sessions \<open>in_progress\<close> and the handlers that
  change them. Conventions:
  \<^item> Python text is modelled by \<open>string\<close> restricted to ASCII code points; the
    character predicates below are Python's on that range.
  \<^item> Calls into the chat transport (\<open>send_message\<close>, \<open>edit_message_text\<close>,
    \<open>answer_callback_query\<close>) return normally and carry no booking state; a handler is
    the function from the state before it to the state after it. Where a claim speaks of
    the text shown to the user, the handler returns that text as well.
  \<^item> Library functions whose code is outside the repository (\<open>strptime\<close>,
    \<open>fromisoformat\<close>, \<open>uuid4\<close>, \<open>date.today\<close>) are fields of an environment
    record handed to the handlers; every theorem holds for every environment.
  \<^item> A \<open>BookingRequest\<close> object is referenced from one place at a time: from a
    session's \<open>preview\<close> until \<open>_save_request\<close>, from \<open>requests\<close> afterwards
    (the session is popped in the same call). Records are therefore values.
  \<^item> A raised exception is a value \<open>Inl e\<close>; the state is then the one at the raise.
    Every handler builds the text of its messages after its last write, so an exception
    while a summary is formatted (a draft without date) changes no state either.
\<close>

subsection \<open>Dates, times and dynamically typed values\<close>

text \<open>\<open>date(year, month, day)\<close> and the naive \<open>time(hour, minute, second, microsecond)\<close>.\<close>

datatype date = Date nat nat nat

datatype time = Time nat nat nat nat

text \<open>What a validator returns and a session dictionary stores under a field key.\<close>

datatype pyobj = PyNone | PyStr string | PyDate date

datatype py_error = AttributeError | IndexError | TypeError | ValueError

text \<open>\<open>TIME_SLOTS\<close> (line 9) and \<open>CATEGORIES\<close> (line 10).\<close>

definition TIME_SLOTS :: "time list" where
  "TIME_SLOTS = [Time 8 0 0 0, Time 10 0 0 0, Time 12 0 0 0, Time 14 0 0 0, Time 16 0 0 0]"

definition CATEGORIES :: "string list" where
  "CATEGORIES = [''New registration'', ''Mobile SIM activation'', ''Technical support'']"

subsection \<open>Records of the data classes\<close>

record Address =
  suite :: pyobj
  street_number :: pyobj
  street_name :: pyobj
  city :: pyobj
  province :: pyobj
  postal_code :: pyobj

record Identity =
  first_name :: pyobj
  middle_name :: pyobj
  last_name :: pyobj
  date_of_birth :: pyobj
  drivers_license :: pyobj
  license_issue :: pyobj
  license_expiry :: pyobj

text \<open>
  \<open>appointment_date\<close> and \<open>time_slot\<close> are read with \<open>progress.get\<close>, which gives
  \<open>None\<close> for a key the session never stored; both are optional in the model.
\<close>

record BookingRequest =
  user_id :: int
  category :: string
  appointment_date :: "date option"
  time_slot :: "time option"
  identity :: Identity
  address :: Address
  status :: string
  booking_id :: string

subsection \<open>Python string primitives on ASCII\<close>

definition isspace_chr :: "char \<Rightarrow> bool" where
  "isspace_chr c = (let n = (of_char c :: nat) in (9 \<le> n \<and> n \<le> 13) \<or> (28 \<le> n \<and> n \<le> 32))"

definition isalnum_chr :: "char \<Rightarrow> bool" where
  "isalnum_chr c = (let n = (of_char c :: nat) in
     (48 \<le> n \<and> n \<le> 57) \<or> (65 \<le> n \<and> n \<le> 90) \<or> (97 \<le> n \<and> n \<le> 122))"

definition upper_chr :: "char \<Rightarrow> char" where
  "upper_chr c = (let n = (of_char c :: nat) in if 97 \<le> n \<and> n \<le> 122 then char_of (n - 32) else c)"

text \<open>\<open>str.strip()\<close>: leading and trailing whitespace removed.\<close>

definition strip :: "string \<Rightarrow> string" where
  "strip s = rev (dropWhile isspace_chr (rev (dropWhile isspace_chr s)))"

definition upper :: "string \<Rightarrow> string" where
  "upper s = map upper_chr s"

text \<open>\<open>str.isalnum()\<close>: false on the empty string.\<close>

definition isalnum :: "string \<Rightarrow> bool" where
  "isalnum s = (s \<noteq> [] \<and> list_all isalnum_chr s)"

text \<open>\<open>s.replace(" ", "")\<close>.\<close>

definition remove_spaces :: "string \<Rightarrow> string" where
  "remove_spaces s = filter (\<lambda>c. c \<noteq> CHR '' '') s"

subsection \<open>Field validators (lines 259--274)\<close>

type_synonym parse_result = "bool \<times> pyobj \<times> string option"

definition parse_required_text :: "string \<Rightarrow> parse_result" where
  "parse_required_text raw =
     (let cleaned = strip raw in (cleaned \<noteq> [], PyStr cleaned, Some ''This field is required.''))"

definition parse_optional_text :: "string \<Rightarrow> parse_result" where
  "parse_optional_text raw =
     (let cleaned = strip raw in (True, (if cleaned = [] then PyNone else PyStr cleaned), None))"

text \<open>
  \<open>strptime\<close> stands for \<open>datetime.strptime(_, "%d/%m/%Y").date()\<close>, with \<open>None\<close>
  for \<open>ValueError\<close>.
\<close>

definition parse_required_date :: "(string \<Rightarrow> date option) \<Rightarrow> string \<Rightarrow> parse_result" where
  "parse_required_date strptime raw =
     (case strptime (strip raw) of
        Some d \<Rightarrow> (True, PyDate d, None)
      | None \<Rightarrow> (False, PyNone, Some ''Invalid format. Use DD/MM/YYYY.''))"

definition parse_optional_date :: "(string \<Rightarrow> date option) \<Rightarrow> string \<Rightarrow> parse_result" where
  "parse_optional_date strptime raw =
     (let cleaned = strip raw in
      if cleaned = [] then (True, PyNone, None)
      else (case strptime cleaned of
              Some d \<Rightarrow> (True, PyDate d, None)
            | None \<Rightarrow> (False, PyNone, Some ''Invalid format. Use DD/MM/YYYY.'')))"

text \<open>
  Line 273: the three conjuncts are evaluated left to right, so \<open>cleaned[3]\<close> is read
  only when \<open>cleaned\<close> has seven characters.
\<close>

definition postal_valid :: "string \<Rightarrow> bool" where
  "postal_valid cleaned =
     (length cleaned = 7 \<and> cleaned ! 3 = CHR '' '' \<and> isalnum (remove_spaces cleaned))"

definition parse_postal_code :: "string \<Rightarrow> parse_result" where
  "parse_postal_code raw =
     (let cleaned = upper (strip raw); valid = postal_valid cleaned
      in (valid, (if valid then PyStr cleaned else PyNone), Some ''Please use the format A2A 1B4.''))"

subsection \<open>Sessions and the bot's state (lines 70--73)\<close>

text \<open>
  A session is the dictionary \<open>in_progress[user_id]\<close>. Its keys \<open>stage\<close>,
  \<open>category\<close>, \<open>date\<close>, \<open>time\<close>, \<open>field_index\<close> and \<open>preview\<close> are fields
  of the record (\<open>None\<close>: the key is absent); the thirteen form keys, which clash with
  none of them, live in the map \<open>field_values\<close>. Every session is created with a
  \<open>stage\<close> (line 117), so that field is not optional.
\<close>

record progress =
  stage :: string
  sel_category :: "string option"
  sel_date :: "date option"
  sel_time :: "time option"
  field_index :: "nat option"
  field_values :: "string \<rightharpoonup> pyobj"
  preview :: "BookingRequest option"

record bot_state =
  requests :: "string \<rightharpoonup> BookingRequest"
  user_requests :: "int \<rightharpoonup> string list"
  booked_slots :: "date option \<rightharpoonup> (time option \<rightharpoonup> string)"
  in_progress :: "int \<rightharpoonup> progress"

text \<open>The state built by \<open>__init__\<close>.\<close>

definition init_state :: bot_state where
  "init_state = \<lparr>requests = Map.empty, user_requests = Map.empty,
     booked_slots = Map.empty, in_progress = Map.empty\<rparr>"

text \<open>What the handlers take from outside the repository.\<close>

record env =
  strptime :: "string \<Rightarrow> date option"
  date_fromisoformat :: "string \<Rightarrow> date option"
  time_fromisoformat :: "string \<Rightarrow> time option"
  uuid4_hex :: string
  today :: date

text \<open>\<open>form_fields\<close> (lines 75--87): key, prompt, validator.\<close>

definition form_fields :: "env \<Rightarrow> (string \<times> string \<times> (string \<Rightarrow> parse_result)) list" where
  "form_fields e =
    [(''first_name'', ''Enter your first name:'', parse_required_text),
     (''middle_name'', ''Enter your middle name (leave blank if none):'', parse_optional_text),
     (''last_name'', ''Enter your last name:'', parse_required_text),
     (''dob'', ''Enter your date of birth [DD/MM/YYYY]:'', parse_required_date (strptime e)),
     (''license'', ''Driver's license number (optional, leave blank if none):'', parse_optional_text),
     (''license_issue'', ''License issue date [DD/MM/YYYY] (optional):'', parse_optional_date (strptime e)),
     (''license_expiry'', ''License expiry date [DD/MM/YYYY] (optional):'', parse_optional_date (strptime e)),
     (''suite'', ''Suite or unit number (leave blank if none):'', parse_optional_text),
     (''street_number'', ''Street number:'', parse_required_text),
     (''street_name'', ''Street name:'', parse_required_text),
     (''city'', ''City:'', parse_required_text),
     (''province'', ''Province:'', parse_required_text),
     (''postal'', ''Postal code (format A2A 1B4):'', parse_postal_code)]"

subsection \<open>Slot registry and booking store (lines 244--258)\<close>

text \<open>\<open>self.booked_slots.get(chosen_date, {})\<close>.\<close>

definition booked_for_day :: "bot_state \<Rightarrow> date option \<Rightarrow> (time option \<rightharpoonup> string)" where
  "booked_for_day s chosen_date =
     (case booked_slots s chosen_date of None \<Rightarrow> Map.empty | Some m \<Rightarrow> m)"

definition available_slots :: "bot_state \<Rightarrow> date option \<Rightarrow> time list" where
  "available_slots s chosen_date =
     filter (\<lambda>slot. booked_for_day s chosen_date (Some slot) = None) TIME_SLOTS"

text \<open>
  \<open>request.time_slot in self._available_slots(request.appointment_date)\<close>; a
  request without time slot is in no list of times.
\<close>

definition slot_available :: "bot_state \<Rightarrow> BookingRequest \<Rightarrow> bool" where
  "slot_available s request =
     (case time_slot request of
        None \<Rightarrow> False
      | Some t \<Rightarrow> t \<in> set (available_slots s (appointment_date request)))"

definition reset_progress :: "int \<Rightarrow> bot_state \<Rightarrow> bot_state" where
  "reset_progress uid s = s\<lparr>in_progress := (in_progress s)(uid := None)\<rparr>"

definition save_request :: "BookingRequest \<Rightarrow> bot_state \<Rightarrow> bot_state" where
  "save_request request s =
     reset_progress (user_id request)
       (s\<lparr>requests := (requests s)(booking_id request \<mapsto> request),
          user_requests := (user_requests s)(user_id request \<mapsto>
             (case user_requests s (user_id request) of None \<Rightarrow> [] | Some l \<Rightarrow> l)
               @ [booking_id request]),
          booked_slots := (booked_slots s)(appointment_date request \<mapsto>
             (booked_for_day s (appointment_date request))(time_slot request \<mapsto> booking_id request))\<rparr>)"

text \<open>
  \<open>_cancel_request\<close>: the record popped from \<open>requests\<close> (or \<open>None\<close>) and the state
  afterwards. \<open>list.remove\<close> deletes the first occurrence only.
\<close>

definition cancel_request :: "string \<Rightarrow> bot_state \<Rightarrow> BookingRequest option \<times> bot_state" where
  "cancel_request bid s =
     (case requests s bid of
        None \<Rightarrow> (None, s)
      | Some request \<Rightarrow>
          (Some request,
           s\<lparr>requests := (requests s)(bid := None),
             booked_slots :=
               (case booked_slots s (appointment_date request) of
                  None \<Rightarrow> booked_slots s
                | Some m \<Rightarrow> (booked_slots s)(appointment_date request \<mapsto> m(time_slot request := None))),
             user_requests :=
               (case user_requests s (user_id request) of
                  None \<Rightarrow> user_requests s
                | Some user_list \<Rightarrow>
                    if bid \<in> set user_list
                    then (user_requests s)(user_id request \<mapsto> remove1 bid user_list)
                    else user_requests s)\<rparr>))"

subsection \<open>Callback data\<close>

text \<open>\<open>data.split(":")\<close>.\<close>

fun split_colon :: "string \<Rightarrow> string list" where
  "split_colon [] = [[]]"
| "split_colon (c # cs) =
     (if c = CHR '':'' then [] # split_colon cs
      else (case split_colon cs of w # ws \<Rightarrow> (c # w) # ws | [] \<Rightarrow> [[c]]))"

text \<open>\<open>data.split(":", maxsplit=1)[1]\<close>; \<open>None\<close> is the \<open>IndexError\<close> of a text without colon.\<close>

definition callback_arg :: "string \<Rightarrow> string option" where
  "callback_arg data =
     (case dropWhile (\<lambda>c. c \<noteq> CHR '':'') data of [] \<Rightarrow> None | _ # rest \<Rightarrow> Some rest)"

subsection \<open>Conversation handlers (lines 116--212)\<close>

definition start_booking_flow :: "int \<Rightarrow> bot_state \<Rightarrow> bot_state" where
  "start_booking_flow uid s =
     s\<lparr>in_progress := (in_progress s)(uid \<mapsto>
        \<lparr>stage = ''category'', sel_category = None, sel_date = None, sel_time = None,
         field_index = None, field_values = Map.empty, preview = None\<rparr>)\<rparr>"

definition get_progress :: "bot_state \<Rightarrow> int \<Rightarrow> progress option" where
  "get_progress s uid = in_progress s uid"

text \<open>
  \<open>_handle_category\<close> is entered from \<open>_route_message\<close> only, with a session at hand;
  without one, line 136 assigns into \<open>None\<close> (\<open>TypeError\<close>).
\<close>

definition handle_category :: "int \<Rightarrow> string \<Rightarrow> bot_state \<Rightarrow> py_error + bot_state" where
  "handle_category uid msg_text s =
     (if msg_text \<notin> set CATEGORIES then Inr s
      else (case get_progress s uid of
              None \<Rightarrow> Inl TypeError
            | Some p \<Rightarrow> Inr (s\<lparr>in_progress := (in_progress s)(uid \<mapsto>
                         p\<lparr>sel_category := Some msg_text, stage := ''calendar''\<rparr>)\<rparr>)))"

text \<open>
  \<open>_handle_calendar_selection\<close>: \<open>result\<close> is the date the calendar widget resolved
  from the button press, \<open>None\<close> while it has none (both early returns of lines 142--145).
\<close>

definition handle_calendar_selection :: "int \<Rightarrow> date option \<Rightarrow> bot_state \<Rightarrow> bot_state" where
  "handle_calendar_selection uid result s =
     (case result of
        None \<Rightarrow> s
      | Some d \<Rightarrow>
          (case get_progress s uid of
             None \<Rightarrow> s
           | Some p \<Rightarrow> s\<lparr>in_progress := (in_progress s)(uid \<mapsto>
                        p\<lparr>sel_date := Some d, stage := ''time''\<rparr>)\<rparr>))"

text \<open>
  \<open>_handle_time_selection\<close>: the unpacking of line 163 needs exactly three parts;
  the two \<open>fromisoformat\<close> calls raise \<open>ValueError\<close> on text they cannot read.
\<close>

definition handle_time_selection :: "env \<Rightarrow> int \<Rightarrow> string \<Rightarrow> bot_state \<Rightarrow> py_error + bot_state" where
  "handle_time_selection e uid data s =
     (if data = ''slot:none'' then Inr s
      else (case split_colon data of
              [_, day, slot_raw] \<Rightarrow>
                (case date_fromisoformat e day of
                   None \<Rightarrow> Inl ValueError
                 | Some chosen_date \<Rightarrow>
                     (case time_fromisoformat e slot_raw of
                        None \<Rightarrow> Inl ValueError
                      | Some slot_time \<Rightarrow>
                          if slot_time \<notin> set (available_slots s (Some chosen_date)) then Inr s
                          else (case get_progress s uid of
                                  None \<Rightarrow> Inr s
                                | Some p \<Rightarrow> Inr (s\<lparr>in_progress := (in_progress s)(uid \<mapsto>
                                    p\<lparr>sel_time := Some slot_time, stage := ''fields'',
                                      field_index := Some 0\<rparr>)\<rparr>))))
            | _ \<Rightarrow> Inl ValueError))"

text \<open>\<open>progress.get(key, default)\<close> on the form keys.\<close>

definition field_get :: "progress \<Rightarrow> string \<Rightarrow> pyobj \<Rightarrow> pyobj" where
  "field_get p key dflt = (case field_values p key of None \<Rightarrow> dflt | Some v \<Rightarrow> v)"

text \<open>The draft of lines 189--191, with the identifier \<open>uuid4().hex\<close> drawn for it.\<close>

definition draft_request :: "env \<Rightarrow> int \<Rightarrow> progress \<Rightarrow> BookingRequest" where
  "draft_request e chat_id p =
     \<lparr>user_id = chat_id,
      category = (case sel_category p of None \<Rightarrow> [] | Some c \<Rightarrow> c),
      appointment_date = sel_date p,
      time_slot = sel_time p,
      identity =
        \<lparr>first_name = field_get p ''first_name'' (PyStr []),
         middle_name = field_get p ''middle_name'' PyNone,
         last_name = field_get p ''last_name'' (PyStr []),
         date_of_birth = field_get p ''dob'' (PyDate (today e)),
         drivers_license = field_get p ''license'' PyNone,
         license_issue = field_get p ''license_issue'' PyNone,
         license_expiry = field_get p ''license_expiry'' PyNone\<rparr>,
      address =
        \<lparr>suite = field_get p ''suite'' PyNone,
         street_number = field_get p ''street_number'' (PyStr []),
         street_name = field_get p ''street_name'' (PyStr []),
         city = field_get p ''city'' (PyStr []),
         province = field_get p ''province'' (PyStr []),
         postal_code = field_get p ''postal'' (PyStr [])\<rparr>,
      status = ''pending_user'',
      booking_id = uuid4_hex e\<rparr>"

definition prompt_confirmation :: "env \<Rightarrow> int \<Rightarrow> bot_state \<Rightarrow> bot_state" where
  "prompt_confirmation e chat_id s =
     (case get_progress s chat_id of
        None \<Rightarrow> s
      | Some p \<Rightarrow> s\<lparr>in_progress := (in_progress s)(chat_id \<mapsto>
                   p\<lparr>preview := Some (draft_request e chat_id p)\<rparr>)\<rparr>)"

text \<open>\<open>int(progress.get("field_index", 0))\<close>.\<close>

definition current_index :: "progress \<Rightarrow> nat" where
  "current_index p = (case field_index p of None \<Rightarrow> 0 | Some i \<Rightarrow> i)"

text \<open>
  \<open>_handle_form_field\<close>. Line 176 reads the session without a check
  (\<open>AttributeError\<close> on \<open>None\<close>), line 177 indexes \<open>form_fields\<close>
  (\<open>IndexError\<close> past its end). The local \<open>index\<close> is incremented on line 182;
  the session's \<open>field_index\<close> is written on line 184 only, after the return of
  line 183.
\<close>

definition handle_form_field :: "env \<Rightarrow> int \<Rightarrow> string \<Rightarrow> bot_state \<Rightarrow> py_error + bot_state" where
  "handle_form_field e uid msg_text s =
     (case get_progress s uid of
        None \<Rightarrow> Inl AttributeError
      | Some p \<Rightarrow>
          (let index = current_index p in
           if length (form_fields e) \<le> index then Inl IndexError
           else
             (case form_fields e ! index of (key, prompt, parser) \<Rightarrow>
                (case parser msg_text of (valid, val, err) \<Rightarrow>
                   if \<not> valid then Inr s
                   else
                     (let p1 = p\<lparr>field_values := (field_values p)(key \<mapsto> val)\<rparr>;
                          s1 = s\<lparr>in_progress := (in_progress s)(uid \<mapsto> p1)\<rparr>;
                          index1 = index + 1
                      in if length (form_fields e) \<le> index1 then Inr (prompt_confirmation e uid s1)
                         else Inr (s1\<lparr>in_progress := (in_progress s1)(uid \<mapsto>
                                     p1\<lparr>field_index := Some index1\<rparr>)\<rparr>))))))"

definition route_message :: "env \<Rightarrow> int \<Rightarrow> string \<Rightarrow> bot_state \<Rightarrow> py_error + bot_state" where
  "route_message e uid msg_text s =
     (case get_progress s uid of
        None \<Rightarrow> Inr s
      | Some p \<Rightarrow>
          if stage p = ''category'' then handle_category uid msg_text s
          else if stage p = ''fields'' then handle_form_field e uid msg_text s
          else Inr s)"

text \<open>
  \<open>_finalize_booking\<close>, for the chat \<open>uid\<close> of the pressed button and its callback
  data. The preview whose status line 209 sets is the object \<open>_save_request\<close> stores.
\<close>

definition finalize_booking :: "int \<Rightarrow> string \<Rightarrow> bot_state \<Rightarrow> py_error + bot_state" where
  "finalize_booking uid data s =
     (case callback_arg data of
        None \<Rightarrow> Inl IndexError
      | Some bid \<Rightarrow>
          (case get_progress s uid of
             None \<Rightarrow> Inr s
           | Some p \<Rightarrow>
               (case preview p of
                  None \<Rightarrow> Inr s
                | Some request \<Rightarrow>
                    if booking_id request \<noteq> bid then Inr s
                    else if \<not> slot_available s request
                    then Inr (s\<lparr>in_progress := (in_progress s)(uid \<mapsto> p\<lparr>stage := ''time''\<rparr>)\<rparr>)
                    else Inr (save_request (request\<lparr>status := ''pending_admin''\<rparr>) s))))"

subsection \<open>Cancellation and the admin decision (lines 218--230)\<close>

text \<open>\<open>_cancel_booking\<close>: the text put into the message, and the state.\<close>

definition cancel_booking :: "string \<Rightarrow> bot_state \<Rightarrow> py_error + (string \<times> bot_state)" where
  "cancel_booking data s =
     (case callback_arg data of
        None \<Rightarrow> Inl IndexError
      | Some bid \<Rightarrow>
          (case cancel_request bid s of
             (canceled, s1) \<Rightarrow>
               Inr ((if canceled \<noteq> None then ''Booking canceled.'' else ''Nothing to cancel.''), s1)))"

definition admin_decision :: "string \<Rightarrow> bot_state \<Rightarrow> py_error + bot_state" where
  "admin_decision data s =
     (case split_colon data of
        [_, decision, bid] \<Rightarrow>
          (case requests s bid of
             None \<Rightarrow> Inr s
           | Some request \<Rightarrow>
               Inr (s\<lparr>requests := (requests s)(bid \<mapsto>
                      request\<lparr>status := (if decision = ''accept'' then ''accepted'' else ''denied'')\<rparr>)\<rparr>))
      | _ \<Rightarrow> Inl ValueError)"

subsection \<open>Events\<close>

text \<open>
  One constructor per handler registered in \<open>_register_handlers\<close> that touches the
  state. An exception leaves a handler before its first write, so the state after a
  failed handler is the state before it.
\<close>

datatype event =
    Start int
  | BeginBooking int
  | TextFlow int string
  | CalendarPress int "date option"
  | SlotPress int string
  | ConfirmPress int string
  | CancelPress string
  | AdminPress string

definition settle :: "bot_state \<Rightarrow> py_error + bot_state \<Rightarrow> bot_state" where
  "settle s r = (case r of Inl _ \<Rightarrow> s | Inr s1 \<Rightarrow> s1)"

fun step :: "env \<Rightarrow> event \<Rightarrow> bot_state \<Rightarrow> bot_state" where
  "step e (Start uid) s = reset_progress uid s"
| "step e (BeginBooking uid) s = start_booking_flow uid s"
| "step e (TextFlow uid msg_text) s = settle s (route_message e uid msg_text s)"
| "step e (CalendarPress uid result) s = handle_calendar_selection uid result s"
| "step e (SlotPress uid data) s = settle s (handle_time_selection e uid data s)"
| "step e (ConfirmPress uid data) s = settle s (finalize_booking uid data s)"
| "step e (CancelPress data) s = settle s (map_sum id snd (cancel_booking data s))"
| "step e (AdminPress data) s = settle s (admin_decision data s)"

text \<open>A sequence of events, each with its environment, handled in order.\<close>

fun run :: "(env \<times> event) list \<Rightarrow> bot_state \<Rightarrow> bot_state" where
  "run [] s = s"
| "run ((e, ev) # es) s = run es (step e ev s)"

text \<open>No event of the sequence is a press of a Cancel button that carries \<open>b\<close>.\<close>

definition no_cancel_of :: "string \<Rightarrow> (env \<times> event) list \<Rightarrow> bool" where
  "no_cancel_of b es = list_all (\<lambda>(e, ev). case ev of
      CancelPress data \<Rightarrow> callback_arg data \<noteq> Some b | _ \<Rightarrow> True) es"

subsection \<open>Reachable states and their invariants\<close>

text \<open>
  \<open>uuid4\<close> never repeats an identifier that is still in use: the identifier an
  environment offers is neither a key of \<open>requests\<close> nor the identifier of a pending
  preview.
\<close>

definition fresh_id :: "bot_state \<Rightarrow> string \<Rightarrow> bool" where
  "fresh_id s b =
     (requests s b = None \<and>
      (\<forall>u p r. in_progress s u = Some p \<and> preview p = Some r \<longrightarrow> booking_id r \<noteq> b))"

text \<open>The states the bot can be in: each event comes with its own environment.\<close>

inductive reachable :: "bot_state \<Rightarrow> bool" where
  reachable_init: "reachable init_state"
| reachable_step: "reachable s \<Longrightarrow> fresh_id s (uuid4_hex e) \<Longrightarrow> reachable (step e ev s)"

text \<open>
  \<open>store_ok\<close>: every stored booking is filed under its own identifier and holds its
  (date, slot) pair in the registry, the slot being one of \<open>TIME_SLOTS\<close>; hence no two
  stored bookings share a pair.
\<close>

definition store_ok :: "bot_state \<Rightarrow> bool" where
  "store_ok s = (\<forall>bid r. requests s bid = Some r \<longrightarrow>
      booking_id r = bid \<and>
      (\<exists>t. time_slot r = Some t \<and> t \<in> set TIME_SLOTS \<and>
           booked_for_day s (appointment_date r) (Some t) = Some bid))"

text \<open>
  \<open>index_ok\<close>: a user's list has no duplicate and lists bookings of that user that
  are in the store; every stored booking is listed under its user.
\<close>

definition index_ok :: "bot_state \<Rightarrow> bool" where
  "index_ok s =
     ((\<forall>u l. user_requests s u = Some l \<longrightarrow>
         distinct l \<and> (\<forall>b \<in> set l. \<exists>r. requests s b = Some r \<and> user_id r = u)) \<and>
      (\<forall>b r. requests s b = Some r \<longrightarrow>
         (\<exists>l. user_requests s (user_id r) = Some l \<and> b \<in> set l)))"

text \<open>
  \<open>drafts_ok\<close>: a pending preview belongs to the user whose session holds it, is not
  yet in the store, and shares its identifier with no other session's preview.
\<close>

definition drafts_ok :: "bot_state \<Rightarrow> bool" where
  "drafts_ok s =
     (\<forall>u p r. in_progress s u = Some p \<and> preview p = Some r \<longrightarrow>
        user_id r = u \<and> requests s (booking_id r) = None \<and>
        (\<forall>u' p' r'. u' \<noteq> u \<and> in_progress s u' = Some p' \<and> preview p' = Some r' \<longrightarrow>
           booking_id r' \<noteq> booking_id r))"

text \<open>Handlers that write sessions only leave the store and the registry as they are.\<close>

definition same_store :: "bot_state \<Rightarrow> bot_state \<Rightarrow> bool" where
  "same_store s s' = (requests s' = requests s \<and> user_requests s' = user_requests s \<and>
      booked_slots s' = booked_slots s)"

subsection \<open>Example states\<close>

definition ex_env :: env where
  "ex_env = \<lparr>strptime = (\<lambda>_. None), date_fromisoformat = (\<lambda>_. None),
     time_fromisoformat = (\<lambda>_. None), uuid4_hex = ''b3'', today = Date 2024 1 1\<rparr>"

definition ex_request :: "int \<Rightarrow> string \<Rightarrow> BookingRequest" where
  "ex_request uid bid =
     \<lparr>user_id = uid, category = ''New registration'',
      appointment_date = Some (Date 2024 6 10), time_slot = Some (Time 10 0 0 0),
      identity = \<lparr>first_name = PyStr ''Ada'', middle_name = PyNone, last_name = PyStr ''Low'',
        date_of_birth = PyDate (Date 1990 1 2), drivers_license = PyNone,
        license_issue = PyNone, license_expiry = PyNone\<rparr>,
      address = \<lparr>suite = PyNone, street_number = PyStr ''12'', street_name = PyStr ''Main'',
        city = PyStr ''Ottawa'', province = PyStr ''ON'', postal_code = PyStr ''A2A 1B4''\<rparr>,
      status = ''pending_user'', booking_id = bid\<rparr>"

text \<open>A session in the form, at field \<open>i\<close>, with or without a preview.\<close>

definition ex_session :: "nat \<Rightarrow> BookingRequest option \<Rightarrow> progress" where
  "ex_session i r =
     \<lparr>stage = ''fields'', sel_category = Some ''New registration'',
      sel_date = Some (Date 2024 6 10), sel_time = Some (Time 10 0 0 0),
      field_index = Some i, field_values = Map.empty, preview = r\<rparr>"

definition ex_form_state :: "nat \<Rightarrow> bot_state" where
  "ex_form_state i = init_state\<lparr>in_progress := [7 \<mapsto> ex_session i None]\<rparr>"

text \<open>Users 1 and 2 each hold a preview for 10 June 2024 at 10:00.\<close>

definition ex_two_drafts :: bot_state where
  "ex_two_drafts = init_state\<lparr>in_progress :=
     [1 \<mapsto> ex_session 12 (Some (ex_request 1 ''b1'')),
      2 \<mapsto> ex_session 12 (Some (ex_request 2 ''b2''))]\<rparr>"

text \<open>The same after user 1 has confirmed.\<close>

definition ex_booked :: bot_state where
  "ex_booked = save_request ((ex_request 1 ''b1'')\<lparr>status := ''pending_admin''\<rparr>) ex_two_drafts"

section \<open>Lemmas about the handlers\<close>

subsection \<open>What the handlers compute\<close>

lemmas postal_eval = parse_postal_code_def postal_valid_def upper_def strip_def isalnum_def
  remove_spaces_def isspace_chr_def isalnum_chr_def upper_chr_def

lemma TIME_SLOTS_facts: "length TIME_SLOTS = 5" "distinct TIME_SLOTS"
  by (simp_all add: TIME_SLOTS_def)

text \<open>
  The buttons of line 194--195 carry \<open>confirm:\<close> or \<open>cancel:\<close> and the
  identifier; the handlers read the identifier back.
\<close>

lemma callback_arg_prefix: "CHR '':'' \<notin> set pre \<Longrightarrow> callback_arg (pre @ CHR '':'' # b) = Some b"
proof -
  assume "CHR '':'' \<notin> set pre"
  then have "dropWhile (\<lambda>c. c \<noteq> CHR '':'') (pre @ CHR '':'' # b) = CHR '':'' # b"
    by (subst dropWhile_append2) auto
  then show ?thesis by (simp add: callback_arg_def)
qed

lemma finalize_booking_cases:
  assumes "in_progress s uid = Some p" "preview p = Some r" "callback_arg data = Some (booking_id r)"
  shows "finalize_booking uid data s =
     Inr (if slot_available s r then save_request (r\<lparr>status := ''pending_admin''\<rparr>) s
          else s\<lparr>in_progress := (in_progress s)(uid \<mapsto> p\<lparr>stage := ''time''\<rparr>)\<rparr>)"
  using assms by (simp add: finalize_booking_def get_progress_def)

lemma save_request_sel:
  "requests (save_request r s) = (requests s)(booking_id r \<mapsto> r)"
  "user_requests (save_request r s) = (user_requests s)(user_id r \<mapsto>
      (case user_requests s (user_id r) of None \<Rightarrow> [] | Some l \<Rightarrow> l) @ [booking_id r])"
  "booked_slots (save_request r s) = (booked_slots s)(appointment_date r \<mapsto>
      (booked_for_day s (appointment_date r))(time_slot r \<mapsto> booking_id r))"
  "in_progress (save_request r s) = (in_progress s)(user_id r := None)"
  by (simp_all add: save_request_def reset_progress_def)

lemma booked_for_day_save:
  "booked_for_day (save_request r s) d t =
     (if d = appointment_date r \<and> t = time_slot r then Some (booking_id r) else booked_for_day s d t)"
  by (simp add: booked_for_day_def save_request_sel)

lemma available_iff:
  "t \<in> set (available_slots s d) \<longleftrightarrow> t \<in> set TIME_SLOTS \<and> booked_for_day s d (Some t) = None"
  by (auto simp: available_slots_def)

lemma cancel_request_None: "requests s bid = None \<Longrightarrow> cancel_request bid s = (None, s)"
  by (simp add: cancel_request_def)

lemma cancel_request_Some:
  assumes "requests s bid = Some r" "cancel_request bid s = (c, s')"
  shows "c = Some r" "requests s' = (requests s)(bid := None)"
    "in_progress s' = in_progress s"
    "booked_for_day s' d t = (if d = appointment_date r \<and> t = time_slot r then None else booked_for_day s d t)"
    "user_requests s' u = (if u = user_id r then map_option (remove1 bid) (user_requests s u) else user_requests s u)"
  using assms
  by (auto simp: cancel_request_def booked_for_day_def remove1_idem split: option.splits if_splits)

lemma admin_decision_cases:
  "admin_decision data s = Inl ValueError \<and> (\<nexists>x dec bid. split_colon data = [x, dec, bid])
   \<or> (\<exists>x dec bid. split_colon data = [x, dec, bid] \<and>
        admin_decision data s = Inr (case requests s bid of None \<Rightarrow> s
           | Some r \<Rightarrow> s\<lparr>requests := (requests s)(bid \<mapsto>
               r\<lparr>status := (if dec = ''accept'' then ''accepted'' else ''denied'')\<rparr>)\<rparr>))"
  by (auto simp: admin_decision_def split: list.splits option.splits)

lemma admin_decision_split:
  assumes "split_colon data = [x, dec, bid]"
  shows "admin_decision data s = Inr (case requests s bid of None \<Rightarrow> s
           | Some r \<Rightarrow> s\<lparr>requests := (requests s)(bid \<mapsto>
               r\<lparr>status := (if dec = ''accept'' then ''accepted'' else ''denied'')\<rparr>)\<rparr>)"
  using assms by (auto simp: admin_decision_def split: list.splits option.splits)

lemma admin_frame:
  assumes "s' = settle s (admin_decision data s)"
  shows "booked_slots s' = booked_slots s" "user_requests s' = user_requests s"
    "in_progress s' = in_progress s" "dom (requests s') = dom (requests s)"
    "requests s b = Some r \<Longrightarrow> \<exists>r'. requests s' b = Some r' \<and> r'\<lparr>status := status r\<rparr> = r"
    "available_slots s' d = available_slots s d"
    "booked_for_day s' d = booked_for_day s d"
  using assms admin_decision_cases[of data s]
  by (auto simp: settle_def available_slots_def booked_for_day_def split: option.splits if_splits)

lemma handle_form_field_invalid:
  assumes "in_progress s uid = Some p" "current_index p = i" "i < length (form_fields e)"
    "form_fields e ! i = (key, prompt, parser)" "\<not> fst (parser msg_text)"
  shows "handle_form_field e uid msg_text s = Inr s"
  using assms by (auto simp: handle_form_field_def get_progress_def Let_def split: prod.splits)

lemma length_form_fields: "length (form_fields e) = 13"
  by (simp add: form_fields_def)

lemma handle_form_field_valid:
  assumes "in_progress s uid = Some p" "current_index p = i" "i < length (form_fields e)"
    "form_fields e ! i = (key, prompt, parser)" "parser msg_text = (True, v, err)"
  shows "handle_form_field e uid msg_text s =
     Inr (if i + 1 < length (form_fields e)
          then s\<lparr>in_progress := (in_progress s)(uid \<mapsto>
                 p\<lparr>field_values := (field_values p)(key \<mapsto> v), field_index := Some (i + 1)\<rparr>)\<rparr>
          else s\<lparr>in_progress := (in_progress s)(uid \<mapsto>
                 p\<lparr>field_values := (field_values p)(key \<mapsto> v),
                   preview := Some (draft_request e uid (p\<lparr>field_values := (field_values p)(key \<mapsto> v)\<rparr>))\<rparr>)\<rparr>)"
  using assms
  by (auto simp: handle_form_field_def get_progress_def Let_def prompt_confirmation_def split: prod.splits)

subsection \<open>The store invariant is kept by every event\<close>

lemma store_ok_same: "same_store s s' \<Longrightarrow> store_ok s \<Longrightarrow> store_ok s'"
  by (simp add: same_store_def store_ok_def booked_for_day_def)

lemma same_store_route: "same_store s (settle s (route_message e uid msg_text s))"
  by (auto simp: same_store_def settle_def route_message_def handle_category_def
      handle_form_field_def prompt_confirmation_def get_progress_def Let_def
      split: option.splits sum.splits prod.splits if_splits)

lemma same_store_slot: "same_store s (settle s (handle_time_selection e uid data s))"
  by (auto simp: same_store_def settle_def handle_time_selection_def get_progress_def
      split: option.splits sum.splits list.splits if_splits)

lemma same_store_calendar: "same_store s (handle_calendar_selection uid result s)"
  by (auto simp: same_store_def handle_calendar_selection_def get_progress_def split: option.splits)

lemma same_store_start: "same_store s (reset_progress uid s)" "same_store s (start_booking_flow uid s)"
  by (simp_all add: same_store_def reset_progress_def start_booking_flow_def)

lemma store_ok_save:
  assumes "store_ok s" "slot_available s r"
  shows "store_ok (save_request (r\<lparr>status := st\<rparr>) s)"
proof -
  from assms(2) obtain t where t: "time_slot r = Some t" "t \<in> set TIME_SLOTS"
    "booked_for_day s (appointment_date r) (Some t) = None"
    by (auto simp: slot_available_def available_iff split: option.splits)
  show ?thesis
    unfolding store_ok_def
  proof (intro allI impI)
    fix bid q
    assume q: "requests (save_request (r\<lparr>status := st\<rparr>) s) bid = Some q"
    show "booking_id q = bid \<and> (\<exists>t. time_slot q = Some t \<and> t \<in> set TIME_SLOTS \<and>
           booked_for_day (save_request (r\<lparr>status := st\<rparr>) s) (appointment_date q) (Some t) = Some bid)"
    proof (cases "bid = booking_id r")
      case True
      with q have "q = r\<lparr>status := st\<rparr>" by (simp add: save_request_sel)
      with True t show ?thesis by (simp add: booked_for_day_save)
    next
      case False
      with q have "requests s bid = Some q" by (simp add: save_request_sel)
      with assms(1) obtain u where u: "booking_id q = bid" "time_slot q = Some u" "u \<in> set TIME_SLOTS"
        "booked_for_day s (appointment_date q) (Some u) = Some bid"
        by (auto simp: store_ok_def)
      with t have "\<not> (appointment_date q = appointment_date r \<and> Some u = time_slot r)" by auto
      with u show ?thesis by (auto simp: booked_for_day_save)
    qed
  qed
qed

lemma store_ok_finalize: "store_ok s \<Longrightarrow> store_ok (settle s (finalize_booking uid data s))"
  by (auto simp: settle_def finalize_booking_def get_progress_def store_ok_save
      intro: store_ok_same[of s] simp: same_store_def
      split: option.splits sum.splits if_splits)

lemma store_ok_cancel:
  assumes "store_ok s"
  shows "store_ok (snd (cancel_request bid s))"
proof (cases "requests s bid")
  case None
  with assms show ?thesis by (simp add: cancel_request_None)
next
  case (Some r)
  obtain c s' where cs: "cancel_request bid s = (c, s')" by (cases "cancel_request bid s")
  note facts = cancel_request_Some[OF Some cs]
  from assms Some have r: "booking_id r = bid"
    "\<exists>t. time_slot r = Some t \<and> booked_for_day s (appointment_date r) (Some t) = Some bid"
    by (auto simp: store_ok_def)
  have "store_ok s'"
    unfolding store_ok_def
  proof (intro allI impI)
    fix b q
    assume "requests s' b = Some q"
    then have b: "b \<noteq> bid" "requests s b = Some q" by (auto simp: facts split: if_splits)
    with assms obtain u where u: "booking_id q = b" "time_slot q = Some u" "u \<in> set TIME_SLOTS"
        "booked_for_day s (appointment_date q) (Some u) = Some b"
      by (auto simp: store_ok_def)
    with r b have "\<not> (appointment_date q = appointment_date r \<and> Some u = time_slot r)" by auto
    with u show "booking_id q = b \<and> (\<exists>t. time_slot q = Some t \<and> t \<in> set TIME_SLOTS \<and>
           booked_for_day s' (appointment_date q) (Some t) = Some b)"
      by (auto simp: facts)
  qed
  with cs show ?thesis by simp
qed

lemma store_ok_cancel_booking: "store_ok s \<Longrightarrow> store_ok (settle s (map_sum id snd (cancel_booking data s)))"
proof (cases "callback_arg data")
  case None
  then show "store_ok s \<Longrightarrow> ?thesis" by (simp add: settle_def cancel_booking_def)
next
  case (Some bid)
  assume "store_ok s"
  from store_ok_cancel[OF this, of bid] Some show ?thesis
    by (auto simp: settle_def cancel_booking_def split: prod.splits)
qed

lemma store_ok_admin: "store_ok s \<Longrightarrow> store_ok (settle s (admin_decision data s))"
proof -
  assume ok: "store_ok s"
  define s' where "s' = settle s (admin_decision data s)"
  note fr = admin_frame[OF s'_def]
  have "store_ok s'"
    unfolding store_ok_def
  proof (intro allI impI)
    fix b q
    assume q: "requests s' b = Some q"
    then have "b \<in> dom (requests s)" using fr(4) by auto
    then obtain r where r: "requests s b = Some r" by auto
    from fr(5)[OF r] q have qr: "q\<lparr>status := status r\<rparr> = r" by auto
    then have eqs: "booking_id q = booking_id r" "time_slot q = time_slot r"
      "appointment_date q = appointment_date r"
      by (metis BookingRequest.select_convs BookingRequest.surjective BookingRequest.update_convs)+
    from ok r show "booking_id q = b \<and> (\<exists>t. time_slot q = Some t \<and> t \<in> set TIME_SLOTS \<and>
           booked_for_day s' (appointment_date q) (Some t) = Some b)"
      by (auto simp: store_ok_def eqs fr(7))
  qed
  then show ?thesis by (simp add: s'_def)
qed

lemma store_ok_step: "store_ok s \<Longrightarrow> store_ok (step e ev s)"
  by (cases ev)
    (simp_all add: store_ok_finalize store_ok_cancel_booking store_ok_admin
      store_ok_same[OF same_store_route] store_ok_same[OF same_store_slot]
      store_ok_same[OF same_store_calendar] store_ok_same[OF same_store_start(1)]
      store_ok_same[OF same_store_start(2)])

lemma store_ok_init: "store_ok init_state"
  by (simp add: store_ok_def init_state_def)

subsection \<open>The invariant of the previews is kept by every event\<close>

lemma index_ok_same: "same_store s s' \<Longrightarrow> index_ok s \<Longrightarrow> index_ok s'"
  by (simp add: same_store_def index_ok_def)

lemma drafts_ok_sessions:
  assumes "drafts_ok s" "requests s' = requests s" "fresh_id s b"
    and "\<And>u p' r'. in_progress s' u = Some p' \<Longrightarrow> preview p' = Some r' \<Longrightarrow>
           (\<exists>p. in_progress s u = Some p \<and> preview p = Some r') \<or>
           (u = uid \<and> user_id r' = uid \<and> booking_id r' = b)"
  shows "drafts_ok s'"
  unfolding drafts_ok_def
proof (intro allI impI, elim conjE)
  fix u p r
  assume a: "in_progress s' u = Some p" "preview p = Some r"
  from assms(4)[OF a] assms(1,3)
  have 1: "user_id r = u" "requests s (booking_id r) = None"
    unfolding drafts_ok_def fresh_id_def by blast+
  have 2: "booking_id r' \<noteq> booking_id r"
    if b: "u' \<noteq> u" "in_progress s' u' = Some p'" "preview p' = Some r'" for u' p' r'
  proof -
    from assms(4)[OF a] consider
      (old) p0 where "in_progress s u = Some p0" "preview p0 = Some r"
      | (new) "u = uid" "booking_id r = b" by blast
    then show ?thesis
    proof cases
      case old
      from assms(4)[OF b(2,3)] consider
        (old') p1 where "in_progress s u' = Some p1" "preview p1 = Some r'"
        | (new') "u' = uid" "booking_id r' = b" by blast
      then show ?thesis
      proof cases
        case old'
        with old b(1) assms(1) show ?thesis unfolding drafts_ok_def by blast
      next
        case new'
        from old assms(3) have "booking_id r \<noteq> b" unfolding fresh_id_def by blast
        with new' show ?thesis by simp
      qed
    next
      case new
      with b(1) assms(4)[OF b(2,3)] obtain p1 where "in_progress s u' = Some p1" "preview p1 = Some r'"
        by blast
      with assms(3) have "booking_id r' \<noteq> b" unfolding fresh_id_def by blast
      with new show ?thesis by simp
    qed
  qed
  from 1 2 show "user_id r = u \<and> requests s' (booking_id r) = None \<and>
        (\<forall>u' p' r'. u' \<noteq> u \<and> in_progress s' u' = Some p' \<and> preview p' = Some r' \<longrightarrow>
           booking_id r' \<noteq> booking_id r)"
    by (auto simp: assms(2))
qed

lemma draft_request_sel:
  "user_id (draft_request e uid p) = uid"
  "booking_id (draft_request e uid p) = uuid4_hex e"
  "status (draft_request e uid p) = ''pending_user''"
  "appointment_date (draft_request e uid p) = sel_date p"
  "time_slot (draft_request e uid p) = sel_time p"
  by (simp_all add: draft_request_def)

lemma previews_category:
  assumes "handle_category uid msg_text s = Inr s'" "in_progress s' u = Some p'" "preview p' = Some r'"
  shows "\<exists>p. in_progress s u = Some p \<and> preview p = Some r'"
  using assms
  by (auto simp: handle_category_def get_progress_def split: option.splits if_splits)

lemma previews_slot:
  assumes "s' = settle s (handle_time_selection e uid data s)" "in_progress s' u = Some p'" "preview p' = Some r'"
  shows "\<exists>p. in_progress s u = Some p \<and> preview p = Some r'"
  using assms
  by (auto simp: settle_def handle_time_selection_def get_progress_def
      split: option.splits sum.splits list.splits if_splits)

lemma previews_calendar:
  assumes "s' = handle_calendar_selection uid result s" "in_progress s' u = Some p'" "preview p' = Some r'"
  shows "\<exists>p. in_progress s u = Some p \<and> preview p = Some r'"
  using assms
  by (auto simp: handle_calendar_selection_def get_progress_def split: option.splits if_splits)

lemma previews_form_field:
  assumes "handle_form_field e uid msg_text s = Inr s'" "in_progress s' u = Some p'" "preview p' = Some r'"
  shows "(\<exists>p. in_progress s u = Some p \<and> preview p = Some r') \<or>
           (u = uid \<and> user_id r' = uid \<and> booking_id r' = uuid4_hex e)"
proof (cases "in_progress s uid")
  case None
  with assms show ?thesis by (simp add: handle_form_field_def get_progress_def)
next
  case (Some p)
  obtain key prompt parser where ff: "form_fields e ! current_index p = (key, prompt, parser)"
    by (cases "form_fields e ! current_index p")
  obtain valid v err where pr: "parser msg_text = (valid, v, err)" by (cases "parser msg_text")
  from assms(1) Some have lt: "current_index p < length (form_fields e)"
    by (auto simp: handle_form_field_def get_progress_def Let_def split: if_splits)
  show ?thesis
  proof (cases valid)
    case False
    with handle_form_field_invalid[OF Some refl lt ff] pr assms show ?thesis by auto
  next
    case True
    with pr have pr': "parser msg_text = (True, v, err)" by simp
    define p1 where "p1 = p\<lparr>field_values := (field_values p)(key \<mapsto> v)\<rparr>"
    have pv: "preview p1 = preview p" by (simp add: p1_def)
    note hv = handle_form_field_valid[OF Some refl lt ff pr', folded p1_def]
    show ?thesis
    proof (cases "current_index p + 1 < length (form_fields e)")
      case True
      with hv assms(1)
      have "in_progress s' = (in_progress s)(uid \<mapsto> p1\<lparr>field_index := Some (current_index p + 1)\<rparr>)"
        by auto
      with assms(2,3) Some pv show ?thesis by (auto split: if_splits)
    next
      case False
      with hv assms(1)
      have "in_progress s' = (in_progress s)(uid \<mapsto> p1\<lparr>preview := Some (draft_request e uid p1)\<rparr>)"
        by auto
      with assms(2,3) Some show ?thesis by (auto simp: draft_request_sel split: if_splits)
    qed
  qed
qed

lemma route_message_cases:
  "route_message e uid msg_text s = Inr s \<or>
   route_message e uid msg_text s = handle_category uid msg_text s \<or>
   route_message e uid msg_text s = handle_form_field e uid msg_text s"
  by (simp add: route_message_def split: option.splits)

lemma previews_route:
  assumes "s' = settle s (route_message e uid msg_text s)" "in_progress s' u = Some p'" "preview p' = Some r'"
  shows "(\<exists>p. in_progress s u = Some p \<and> preview p = Some r') \<or>
           (u = uid \<and> user_id r' = uid \<and> booking_id r' = uuid4_hex e)"
proof (cases "route_message e uid msg_text s")
  case (Inl err)
  with assms show ?thesis by (simp add: settle_def)
next
  case (Inr s1)
  with assms(1) have s1: "s' = s1" by (simp add: settle_def)
  from route_message_cases[of e uid msg_text s] Inr
  consider "s1 = s" | "handle_category uid msg_text s = Inr s1"
    | "handle_form_field e uid msg_text s = Inr s1"
    by (elim disjE) simp_all
  then show ?thesis
  proof cases
    case 1
    with s1 assms show ?thesis by auto
  next
    case 2
    from previews_category[OF 2] assms(2,3) s1 show ?thesis by auto
  next
    case 3
    from previews_form_field[OF 3] assms(2,3) s1 show ?thesis by auto
  qed
qed

lemma finalize_booking_result:
  assumes "s' = settle s (finalize_booking uid data s)"
  shows "s' = s
     \<or> (\<exists>p. in_progress s uid = Some p \<and> s' = s\<lparr>in_progress := (in_progress s)(uid \<mapsto> p\<lparr>stage := ''time''\<rparr>)\<rparr>)
     \<or> (\<exists>p r. in_progress s uid = Some p \<and> preview p = Some r \<and> slot_available s r \<and>
            s' = save_request (r\<lparr>status := ''pending_admin''\<rparr>) s)"
  using assms
  by (simp add: settle_def finalize_booking_def get_progress_def split: option.splits if_splits)

lemma drafts_ok_shrink:
  assumes "drafts_ok s" "\<And>b. requests s b = None \<Longrightarrow> requests s' b = None"
    and "\<And>u p' r'. in_progress s' u = Some p' \<Longrightarrow> preview p' = Some r' \<Longrightarrow>
           \<exists>p. in_progress s u = Some p \<and> preview p = Some r'"
  shows "drafts_ok s'"
  unfolding drafts_ok_def
proof (intro allI impI, elim conjE)
  fix u p r
  assume a: "in_progress s' u = Some p" "preview p = Some r"
  from assms(3)[OF a] obtain p0 where p0: "in_progress s u = Some p0" "preview p0 = Some r" by blast
  with assms(1) have 1: "user_id r = u" "requests s (booking_id r) = None"
    unfolding drafts_ok_def by blast+
  have 2: "booking_id r' \<noteq> booking_id r"
    if b: "u' \<noteq> u" "in_progress s' u' = Some p'" "preview p' = Some r'" for u' p' r'
  proof -
    from assms(3)[OF b(2,3)] obtain p1 where "in_progress s u' = Some p1" "preview p1 = Some r'" by blast
    with p0 b(1) assms(1) show ?thesis unfolding drafts_ok_def by blast
  qed
  from 1 2 assms(2) show "user_id r = u \<and> requests s' (booking_id r) = None \<and>
        (\<forall>u' p' r'. u' \<noteq> u \<and> in_progress s' u' = Some p' \<and> preview p' = Some r' \<longrightarrow>
           booking_id r' \<noteq> booking_id r)"
    by auto
qed

lemma drafts_ok_save:
  assumes ok: "drafts_ok s" and p: "in_progress s uid = Some p" "preview p = Some r"
  shows "drafts_ok (save_request (r\<lparr>status := st\<rparr>) s)"
proof -
  from ok p have r: "user_id r = uid" "requests s (booking_id r) = None"
    and others: "\<And>u' p' r'. u' \<noteq> uid \<Longrightarrow> in_progress s u' = Some p' \<Longrightarrow> preview p' = Some r'
        \<Longrightarrow> booking_id r' \<noteq> booking_id r"
    unfolding drafts_ok_def by blast+
  define s' where "s' = save_request (r\<lparr>status := st\<rparr>) s"
  have ip: "in_progress s' = (in_progress s)(uid := None)"
    and rq: "requests s' = (requests s)(booking_id r \<mapsto> r\<lparr>status := st\<rparr>)"
    by (simp_all add: s'_def save_request_sel r)
  have "drafts_ok s'"
    unfolding drafts_ok_def
  proof (intro allI impI, elim conjE)
    fix u q x
    assume a: "in_progress s' u = Some q" "preview q = Some x"
    then have u: "u \<noteq> uid" "in_progress s u = Some q" by (auto simp: ip split: if_splits)
    from ok u(2) a(2) have 1: "user_id x = u" "requests s (booking_id x) = None"
      unfolding drafts_ok_def by blast+
    from others[OF u(1) u(2) a(2)] have 3: "booking_id x \<noteq> booking_id r" .
    have 2: "booking_id r' \<noteq> booking_id x"
      if b: "u' \<noteq> u" "in_progress s' u' = Some p'" "preview p' = Some r'" for u' p' r'
    proof -
      from b(2) have "in_progress s u' = Some p'" by (auto simp: ip split: if_splits)
      with ok u(2) a(2) b(1,3) show ?thesis unfolding drafts_ok_def by blast
    qed
    from 1 2 3 show "user_id x = u \<and> requests s' (booking_id x) = None \<and>
        (\<forall>u' p' r'. u' \<noteq> u \<and> in_progress s' u' = Some p' \<and> preview p' = Some r' \<longrightarrow>
           booking_id r' \<noteq> booking_id x)"
      by (auto simp: rq)
  qed
  then show ?thesis by (simp add: s'_def)
qed

lemma drafts_ok_finalize:
  assumes "drafts_ok s"
  shows "drafts_ok (settle s (finalize_booking uid data s))"
proof -
  define s' where "s' = settle s (finalize_booking uid data s)"
  from finalize_booking_result[OF s'_def] consider "s' = s"
    | p where "in_progress s uid = Some p" "s' = s\<lparr>in_progress := (in_progress s)(uid \<mapsto> p\<lparr>stage := ''time''\<rparr>)\<rparr>"
    | p r where "in_progress s uid = Some p" "preview p = Some r"
         "s' = save_request (r\<lparr>status := ''pending_admin''\<rparr>) s"
    by blast
  then have "drafts_ok s'"
  proof cases
    case 1
    with assms show ?thesis by simp
  next
    case 2
    show ?thesis
    proof (rule drafts_ok_shrink[OF assms])
      show "\<And>b. requests s b = None \<Longrightarrow> requests s' b = None" by (simp add: 2)
      show "\<And>u p' r'. in_progress s' u = Some p' \<Longrightarrow> preview p' = Some r' \<Longrightarrow>
           \<exists>p. in_progress s u = Some p \<and> preview p = Some r'"
        using 2 by (auto split: if_splits)
    qed
  next
    case 3
    with drafts_ok_save[OF assms 3(1,2)] show ?thesis by simp
  qed
  then show ?thesis by (simp add: s'_def)
qed

lemma cancel_booking_result:
  assumes "s' = settle s (map_sum id snd (cancel_booking data s))"
  shows "s' = s \<or> (\<exists>bid. s' = snd (cancel_request bid s))"
proof (cases "callback_arg data")
  case None
  with assms show ?thesis by (simp add: settle_def cancel_booking_def)
next
  case (Some bid)
  with assms have "s' = snd (cancel_request bid s)"
    by (simp add: settle_def cancel_booking_def split: prod.splits)
  then show ?thesis by blast
qed

lemma cancel_request_frame:
  "in_progress (snd (cancel_request bid s)) = in_progress s"
  "requests (snd (cancel_request bid s)) = (requests s)(bid := None)"
  by (auto simp: cancel_request_def split: option.splits)

lemma drafts_ok_cancel:
  assumes "drafts_ok s"
  shows "drafts_ok (settle s (map_sum id snd (cancel_booking data s)))"
proof -
  define s' where "s' = settle s (map_sum id snd (cancel_booking data s))"
  from cancel_booking_result[OF s'_def] have
    "in_progress s' = in_progress s" "\<And>b. requests s b = None \<Longrightarrow> requests s' b = None"
    by (auto simp: cancel_request_frame)
  with drafts_ok_shrink[OF assms, of s'] show ?thesis by (simp add: s'_def)
qed

lemma drafts_ok_admin:
  assumes "drafts_ok s"
  shows "drafts_ok (settle s (admin_decision data s))"
proof -
  define s' where "s' = settle s (admin_decision data s)"
  note fr = admin_frame[OF s'_def]
  have "\<And>b. requests s b = None \<Longrightarrow> requests s' b = None"
    using fr(4) by (metis domIff)
  with drafts_ok_shrink[OF assms, of s'] fr(3) show ?thesis by (simp add: s'_def)
qed

lemma drafts_ok_step:
  assumes "drafts_ok s" "fresh_id s (uuid4_hex e)"
  shows "drafts_ok (step e ev s)"
proof (cases ev)
  case (Start uid)
  have "drafts_ok (reset_progress uid s)"
  proof (rule drafts_ok_shrink[OF assms(1)])
    show "\<And>b. requests s b = None \<Longrightarrow> requests (reset_progress uid s) b = None"
      by (simp add: reset_progress_def)
  qed (auto simp: reset_progress_def split: if_splits)
  with Start show ?thesis by simp
next
  case (BeginBooking uid)
  have "drafts_ok (start_booking_flow uid s)"
  proof (rule drafts_ok_shrink[OF assms(1)])
    show "\<And>b. requests s b = None \<Longrightarrow> requests (start_booking_flow uid s) b = None"
      by (simp add: start_booking_flow_def)
  qed (auto simp: start_booking_flow_def split: if_splits)
  with BeginBooking show ?thesis by simp
next
  case (TextFlow uid msg_text)
  have "drafts_ok (settle s (route_message e uid msg_text s))"
  proof (rule drafts_ok_sessions[OF assms(1) _ assms(2)])
    show "requests (settle s (route_message e uid msg_text s)) = requests s"
      using same_store_route by (simp add: same_store_def)
  qed (rule previews_route[OF refl])
  with TextFlow show ?thesis by simp
next
  case (CalendarPress uid result)
  have "drafts_ok (handle_calendar_selection uid result s)"
  proof (rule drafts_ok_shrink[OF assms(1)])
    show "\<And>b. requests s b = None \<Longrightarrow> requests (handle_calendar_selection uid result s) b = None"
      using same_store_calendar by (simp add: same_store_def)
  qed (rule previews_calendar[OF refl])
  with CalendarPress show ?thesis by simp
next
  case (SlotPress uid data)
  have "drafts_ok (settle s (handle_time_selection e uid data s))"
  proof (rule drafts_ok_shrink[OF assms(1)])
    show "\<And>b. requests s b = None \<Longrightarrow> requests (settle s (handle_time_selection e uid data s)) b = None"
      using same_store_slot by (simp add: same_store_def)
  qed (rule previews_slot[OF refl])
  with SlotPress show ?thesis by simp
next
  case (ConfirmPress uid data)
  with drafts_ok_finalize[OF assms(1)] show ?thesis by simp
next
  case (CancelPress data)
  with drafts_ok_cancel[OF assms(1)] show ?thesis by simp
next
  case (AdminPress data)
  with drafts_ok_admin[OF assms(1)] show ?thesis by simp
qed

subsection \<open>The invariant of the per-user index is kept by every event\<close>

lemma index_okD:
  assumes "index_ok s"
  shows "user_requests s u = Some l \<Longrightarrow> distinct l"
    and "user_requests s u = Some l \<Longrightarrow> b \<in> set l \<Longrightarrow> \<exists>r. requests s b = Some r \<and> user_id r = u"
    and "requests s b = Some r \<Longrightarrow> \<exists>l. user_requests s (user_id r) = Some l \<and> b \<in> set l"
  using assms unfolding index_ok_def by blast+

lemma index_ok_save:
  assumes ok: "index_ok s" and fresh: "requests s (booking_id r) = None"
  shows "index_ok (save_request (r\<lparr>status := st\<rparr>) s)"
proof -
  define q where "q = r\<lparr>status := st\<rparr>"
  define s' where "s' = save_request q s"
  define l0 where "l0 = (case user_requests s (user_id r) of None \<Rightarrow> [] | Some l \<Rightarrow> l)"
  have q: "booking_id q = booking_id r" "user_id q = user_id r" by (simp_all add: q_def)
  have rq: "requests s' = (requests s)(booking_id r \<mapsto> q)"
    and ur: "user_requests s' = (user_requests s)(user_id r \<mapsto> l0 @ [booking_id r])"
    by (simp_all add: s'_def save_request_sel q l0_def)
  have l0: "distinct l0 \<and> (\<forall>b. b \<in> set l0 \<longrightarrow> (\<exists>x. requests s b = Some x \<and> user_id x = user_id r))"
  proof (cases "user_requests s (user_id r)")
    case None
    then show ?thesis by (simp add: l0_def)
  next
    case (Some l)
    with index_okD(1,2)[OF ok Some] show ?thesis by (simp add: l0_def)
  qed
  with fresh have notin: "booking_id r \<notin> set l0" by auto
  have "index_ok s'"
    unfolding index_ok_def
  proof (intro conjI allI impI ballI)
    fix u l
    assume l: "user_requests s' u = Some l"
    show "distinct l" using l l0 notin index_okD(1)[OF ok, of u l] by (auto simp: ur split: if_splits)
    fix b assume b: "b \<in> set l"
    show "\<exists>x. requests s' b = Some x \<and> user_id x = u"
    proof (cases "b = booking_id r")
      case True
      from l b True fresh index_okD(2)[OF ok, of u l b] have "u = user_id r"
        by (auto simp: ur split: if_splits)
      with True show ?thesis by (simp add: rq q)
    next
      case False
      with l b l0 index_okD(2)[OF ok, of u l b] show ?thesis
        by (auto simp: ur rq split: if_splits)
    qed
  next
    fix b x
    assume x: "requests s' b = Some x"
    show "\<exists>l. user_requests s' (user_id x) = Some l \<and> b \<in> set l"
    proof (cases "b = booking_id r")
      case True
      with x have "x = q" by (simp add: rq)
      with True q show ?thesis by (simp add: ur)
    next
      case False
      with x index_okD(3)[OF ok, of b x] show ?thesis by (auto simp: rq ur l0_def)
    qed
  qed
  then show ?thesis by (simp add: s'_def q_def)
qed

lemma index_ok_finalize:
  assumes "index_ok s" "drafts_ok s"
  shows "index_ok (settle s (finalize_booking uid data s))"
proof -
  define s' where "s' = settle s (finalize_booking uid data s)"
  from finalize_booking_result[OF s'_def] consider "s' = s"
    | p where "in_progress s uid = Some p" "s' = s\<lparr>in_progress := (in_progress s)(uid \<mapsto> p\<lparr>stage := ''time''\<rparr>)\<rparr>"
    | p r where "in_progress s uid = Some p" "preview p = Some r"
         "s' = save_request (r\<lparr>status := ''pending_admin''\<rparr>) s"
    by blast
  then have "index_ok s'"
  proof cases
    case 1
    with assms show ?thesis by simp
  next
    case 2
    with index_ok_same[OF _ assms(1), of s'] show ?thesis by (simp add: same_store_def)
  next
    case 3
    from assms(2) 3(1,2) have "requests s (booking_id r) = None"
      unfolding drafts_ok_def by blast
    from index_ok_save[OF assms(1) this] 3(3) show ?thesis by simp
  qed
  then show ?thesis by (simp add: s'_def)
qed

lemma index_ok_cancel_request:
  assumes ok: "index_ok s"
  shows "index_ok (snd (cancel_request bid s))"
proof (cases "requests s bid")
  case None
  with ok show ?thesis by (simp add: cancel_request_None)
next
  case (Some r)
  obtain c s' where cs: "cancel_request bid s = (c, s')" by (cases "cancel_request bid s")
  note facts = cancel_request_Some[OF Some cs]
  have "index_ok s'"
    unfolding index_ok_def
  proof (intro conjI allI impI ballI)
    fix u l
    assume l: "user_requests s' u = Some l"
    then obtain l1 where l1: "user_requests s u = Some l1"
      "l = (if u = user_id r then remove1 bid l1 else l1)"
      by (auto simp: facts(5) split: if_splits)
    from index_okD(1,2)[OF ok l1(1)]
    have d: "distinct l1" "\<And>b. b \<in> set l1 \<Longrightarrow> \<exists>x. requests s b = Some x \<and> user_id x = u"
      by blast+
    from d(1) l1(2) show "distinct l" by simp
    fix b assume b: "b \<in> set l"
    have "b \<in> set l1" using b l1(2) set_remove1_subset[of bid l1] by (auto split: if_splits)
    from d(2)[OF this] obtain x where x: "requests s b = Some x" "user_id x = u" by blast
    have "b \<noteq> bid"
    proof
      assume "b = bid"
      with x Some have "u = user_id r" by simp
      with l1(2) d(1) b \<open>b = bid\<close> show False by simp
    qed
    with x show "\<exists>x. requests s' b = Some x \<and> user_id x = u" by (simp add: facts(2))
  next
    fix b x
    assume "requests s' b = Some x"
    then have b: "b \<noteq> bid" "requests s b = Some x" by (auto simp: facts(2) split: if_splits)
    with index_okD(3)[OF ok, of b x] obtain l where "user_requests s (user_id x) = Some l" "b \<in> set l"
      by blast
    with b(1) show "\<exists>l. user_requests s' (user_id x) = Some l \<and> b \<in> set l"
      by (auto simp: facts(5))
  qed
  with cs show ?thesis by simp
qed

lemma index_ok_cancel:
  assumes "index_ok s"
  shows "index_ok (settle s (map_sum id snd (cancel_booking data s)))"
  using cancel_booking_result[OF refl, of s data] index_ok_cancel_request[OF assms] assms
  by auto

lemma index_ok_admin:
  assumes ok: "index_ok s"
  shows "index_ok (settle s (admin_decision data s))"
proof -
  define s' where "s' = settle s (admin_decision data s)"
  note fr = admin_frame[OF s'_def]
  have fwd: "\<exists>y. requests s' b = Some y \<and> user_id y = user_id x" if "requests s b = Some x" for b x
  proof -
    from fr(5)[OF that] obtain y where y: "requests s' b = Some y" "y\<lparr>status := status x\<rparr> = x" by blast
    from y(2) have "user_id y = user_id x"
      by (metis BookingRequest.select_convs(1) BookingRequest.surjective BookingRequest.update_convs(7))
    with y(1) show ?thesis by blast
  qed
  have bwd: "\<exists>x. requests s b = Some x \<and> user_id y = user_id x" if "requests s' b = Some y" for b y
  proof -
    from that fr(4) have "b \<in> dom (requests s)" by auto
    then obtain x where x: "requests s b = Some x" by auto
    from fwd[OF x] that x show ?thesis by auto
  qed
  have "index_ok s'"
    unfolding index_ok_def
  proof (intro conjI allI impI ballI)
    fix u l
    assume l: "user_requests s' u = Some l"
    then have l': "user_requests s u = Some l" by (simp add: fr(2))
    from index_okD(1)[OF ok l'] show "distinct l" .
    fix b assume "b \<in> set l"
    with index_okD(2)[OF ok l'] obtain x where "requests s b = Some x" "user_id x = u"
      by blast
    with fwd[OF this(1)] show "\<exists>x. requests s' b = Some x \<and> user_id x = u" by auto
  next
    fix b y
    assume "requests s' b = Some y"
    from bwd[OF this] obtain x where x: "requests s b = Some x" "user_id y = user_id x" by blast
    from index_okD(3)[OF ok x(1)] x(2) show "\<exists>l. user_requests s' (user_id y) = Some l \<and> b \<in> set l"
      by (simp add: fr(2))
  qed
  then show ?thesis by (simp add: s'_def)
qed

lemma index_ok_step:
  assumes "index_ok s" "drafts_ok s"
  shows "index_ok (step e ev s)"
  using assms
  by (cases ev)
    (simp_all add: index_ok_finalize index_ok_cancel index_ok_admin
      index_ok_same[OF same_store_route] index_ok_same[OF same_store_slot]
      index_ok_same[OF same_store_calendar] index_ok_same[OF same_store_start(1)]
      index_ok_same[OF same_store_start(2)])

subsection \<open>Reservations persist; the invariants of reachable states\<close>

text \<open>
  No event hands a held pair to another booking: after any event, from any state, the
  pair has the holder it had or none.
\<close>

lemma holder_never_replaced:
  assumes held: "booked_for_day s d k = Some b"
  shows "booked_for_day (step e ev s) d k = Some b \<or> booked_for_day (step e ev s) d k = None"
proof -
  have same: "booked_for_day s' d k = Some b" if "same_store s s'" for s'
    using that held by (simp add: same_store_def booked_for_day_def)
  show ?thesis
  proof (cases ev)
    case (Start uid)
    with same[OF same_store_start(1)] show ?thesis by simp
  next
    case (BeginBooking uid)
    with same[OF same_store_start(2)] show ?thesis by simp
  next
    case (TextFlow uid msg_text)
    with same[OF same_store_route] show ?thesis by simp
  next
    case (CalendarPress uid result)
    with same[OF same_store_calendar] show ?thesis by simp
  next
    case (SlotPress uid data)
    with same[OF same_store_slot] show ?thesis by simp
  next
    case (ConfirmPress uid data)
    define s' where "s' = settle s (finalize_booking uid data s)"
    from finalize_booking_result[OF s'_def] consider "s' = s"
      | p where "in_progress s uid = Some p"
          "s' = s\<lparr>in_progress := (in_progress s)(uid \<mapsto> p\<lparr>stage := ''time''\<rparr>)\<rparr>"
      | p q where "in_progress s uid = Some p" "preview p = Some q" "slot_available s q"
           "s' = save_request (q\<lparr>status := ''pending_admin''\<rparr>) s"
      by blast
    then have "booked_for_day s' d k = Some b"
    proof cases
      case 1
      with held show ?thesis by simp
    next
      case 2
      with same[of s'] show ?thesis by (simp add: same_store_def)
    next
      case 3
      from 3(3) held have "\<not> (d = appointment_date q \<and> k = time_slot q)"
        by (auto simp: slot_available_def available_iff split: option.splits)
      with held show ?thesis by (auto simp: 3(4) booked_for_day_save)
    qed
    with ConfirmPress show ?thesis by (simp add: s'_def)
  next
    case (CancelPress data)
    define s' where "s' = settle s (map_sum id snd (cancel_booking data s))"
    from cancel_booking_result[OF s'_def] consider "s' = s"
      | bid where "s' = snd (cancel_request bid s)" by blast
    then have "booked_for_day s' d k = Some b \<or> booked_for_day s' d k = None"
    proof cases
      case 1
      with held show ?thesis by simp
    next
      case 2
      show ?thesis
      proof (cases "requests s bid")
        case None
        with held 2 show ?thesis by (simp add: cancel_request_None)
      next
        case (Some q)
        obtain c where cs: "cancel_request bid s = (c, s')"
          by (cases "cancel_request bid s") (simp add: 2)
        from held show ?thesis by (simp add: cancel_request_Some(4)[OF Some cs])
      qed
    qed
    with CancelPress show ?thesis by (simp add: s'_def)
  next
    case (AdminPress data)
    with admin_frame(7)[OF refl, of s data] held show ?thesis by simp
  qed
qed

text \<open>The three invariants hold in every reachable state.\<close>

lemma reachable_invariants: "reachable s \<Longrightarrow> store_ok s \<and> index_ok s \<and> drafts_ok s"
proof (induction rule: reachable.induct)
  case reachable_init
  have "index_ok init_state" "drafts_ok init_state"
    by (simp_all add: index_ok_def drafts_ok_def init_state_def)
  with store_ok_init show ?case by simp
next
  case (reachable_step s e ev)
  then show ?case by (simp add: store_ok_step index_ok_step drafts_ok_step)
qed

lemma store_okD:
  assumes "store_ok s" "requests s b = Some r"
  shows "booking_id r = b"
    "\<exists>t. time_slot r = Some t \<and> t \<in> set TIME_SLOTS \<and>
         booked_for_day s (appointment_date r) (Some t) = Some b"
  using assms unfolding store_ok_def by blast+

lemma held_until_cancel:
  assumes ok: "store_ok s" and held: "booked_for_day s d (Some t) = Some b"
    and nc: "\<And>data. ev = CancelPress data \<Longrightarrow> callback_arg data \<noteq> Some b"
  shows "booked_for_day (step e ev s) d (Some t) = Some b"
proof -
  have same: "booked_for_day s' d (Some t) = Some b" if "same_store s s'" for s'
    using that held by (simp add: same_store_def booked_for_day_def)
  show ?thesis
  proof (cases ev)
    case (Start uid)
    with same[OF same_store_start(1)] show ?thesis by simp
  next
    case (BeginBooking uid)
    with same[OF same_store_start(2)] show ?thesis by simp
  next
    case (TextFlow uid msg_text)
    with same[OF same_store_route] show ?thesis by simp
  next
    case (CalendarPress uid result)
    with same[OF same_store_calendar] show ?thesis by simp
  next
    case (SlotPress uid data)
    with same[OF same_store_slot] show ?thesis by simp
  next
    case (ConfirmPress uid data)
    define s' where "s' = settle s (finalize_booking uid data s)"
    from finalize_booking_result[OF s'_def] consider "s' = s"
      | p where "in_progress s uid = Some p" "s' = s\<lparr>in_progress := (in_progress s)(uid \<mapsto> p\<lparr>stage := ''time''\<rparr>)\<rparr>"
      | p q where "in_progress s uid = Some p" "preview p = Some q" "slot_available s q"
           "s' = save_request (q\<lparr>status := ''pending_admin''\<rparr>) s"
      by blast
    then have "booked_for_day s' d (Some t) = Some b"
    proof cases
      case 1
      with held show ?thesis by simp
    next
      case 2
      with same[of s'] show ?thesis by (simp add: same_store_def)
    next
      case 3
      from 3(3) held have "\<not> (d = appointment_date q \<and> Some t = time_slot q)"
        by (auto simp: slot_available_def available_iff split: option.splits)
      with held show ?thesis by (auto simp: 3(4) booked_for_day_save)
    qed
    with ConfirmPress show ?thesis by (simp add: s'_def)
  next
    case (CancelPress data)
    define s' where "s' = settle s (map_sum id snd (cancel_booking data s))"
    have "booked_for_day s' d (Some t) = Some b"
    proof (cases "callback_arg data")
      case None
      with held show ?thesis by (simp add: s'_def settle_def cancel_booking_def)
    next
      case (Some bid)
      with nc[OF CancelPress] have ne: "bid \<noteq> b" by simp
      from Some have s': "s' = snd (cancel_request bid s)"
        by (simp add: s'_def settle_def cancel_booking_def split: prod.splits)
      show ?thesis
      proof (cases "requests s bid")
        case None
        with held show ?thesis by (simp add: s' cancel_request_None)
      next
        case (Some q)
        obtain c where cs: "cancel_request bid s = (c, s')" by (cases "cancel_request bid s") (simp add: s')
        from store_okD(2)[OF ok Some] obtain u where
          "time_slot q = Some u" "booked_for_day s (appointment_date q) (Some u) = Some bid" by blast
        with held ne have "\<not> (d = appointment_date q \<and> Some t = time_slot q)"
          by auto
        with held show ?thesis by (auto simp: cancel_request_Some(4)[OF Some cs])
      qed
    qed
    with CancelPress show ?thesis by (simp add: s'_def)
  next
    case (AdminPress data)
    with admin_frame(7)[OF refl, of s data] held show ?thesis by simp
  qed
qed

lemma held_until_cancel_run:
  assumes "store_ok s" "booked_for_day s d (Some t) = Some b" "no_cancel_of b es"
  shows "booked_for_day (run es s) d (Some t) = Some b"
  using assms
proof (induction es arbitrary: s)
  case Nil
  then show ?case by simp
next
  case (Cons x es)
  obtain e ev where x: "x = (e, ev)" by (cases x)
  from Cons.prems(3) x have nc: "\<And>data. ev = CancelPress data \<Longrightarrow> callback_arg data \<noteq> Some b"
    and rest: "no_cancel_of b es"
    by (auto simp: no_cancel_of_def)
  from held_until_cancel[OF Cons.prems(1,2) nc] store_ok_step[OF Cons.prems(1)] rest x
  show ?case by (simp add: Cons.IH)
qed

lemma route_fields:
  assumes "in_progress s uid = Some p" "stage p = ''fields''"
  shows "route_message e uid msg_text s = handle_form_field e uid msg_text s"
  using assms by (simp add: route_message_def get_progress_def)

text \<open>Two consequences: who owns a preview, and no double booking.\<close>

lemma reachable_preview_owner:
  "reachable s \<Longrightarrow> in_progress s uid = Some p \<Longrightarrow> preview p = Some r \<Longrightarrow> user_id r = uid"
  using reachable_invariants[of s] unfolding drafts_ok_def by blast

lemma reachable_no_double_booking:
  assumes "reachable s" "requests s b1 = Some r1" "requests s b2 = Some r2"
    "appointment_date r1 = appointment_date r2" "time_slot r1 = time_slot r2"
  shows "b1 = b2"
proof -
  from reachable_invariants[OF assms(1)] have ok: "store_ok s" by simp
  from store_okD(2)[OF ok assms(2)] store_okD(2)[OF ok assms(3)] assms(4,5)
  show ?thesis by auto
qed

section \<open>Facts about the example states\<close>

lemmas ex_defs = ex_env_def ex_request_def ex_session_def ex_form_state_def
  ex_two_drafts_def ex_booked_def init_state_def

lemma ex_two_drafts_sel:
  "in_progress ex_two_drafts 1 = Some (ex_session 12 (Some (ex_request 1 ''b1'')))"
  "in_progress ex_two_drafts 2 = Some (ex_session 12 (Some (ex_request 2 ''b2'')))"
  "requests ex_two_drafts = Map.empty" "user_requests ex_two_drafts = Map.empty"
  "booked_slots ex_two_drafts = Map.empty"
  by (simp_all add: ex_two_drafts_def init_state_def)

lemma ex_request_sel:
  "booking_id (ex_request u b) = b" "user_id (ex_request u b) = u"
  "appointment_date (ex_request u b) = Some (Date 2024 6 10)"
  "time_slot (ex_request u b) = Some (Time 10 0 0 0)"
  "status (ex_request u b) = ''pending_user''"
  by (simp_all add: ex_request_def)

lemma ex_session_sel:
  "preview (ex_session i r) = r" "stage (ex_session i r) = ''fields''"
  "current_index (ex_session i r) = i" "field_values (ex_session i r) = Map.empty"
  by (simp_all add: ex_session_def current_index_def)

lemma callback_arg_examples:
  "callback_arg ''confirm:b1'' = Some ''b1''" "callback_arg ''confirm:b2'' = Some ''b2''"
  "callback_arg ''cancel:b1'' = Some ''b1''" "callback_arg ''cancel:zz'' = Some ''zz''"
  by (simp_all add: callback_arg_def)

lemma ex_two_drafts_available:
  "slot_available ex_two_drafts (ex_request u b)"
  by (simp add: slot_available_def ex_request_sel available_iff booked_for_day_def
      ex_two_drafts_sel TIME_SLOTS_def)

lemma ex_booked_sel:
  "requests ex_booked = [''b1'' \<mapsto> (ex_request 1 ''b1'')\<lparr>status := ''pending_admin''\<rparr>]"
  "user_requests ex_booked = [1 \<mapsto> [''b1'']]"
  "in_progress ex_booked 2 = Some (ex_session 12 (Some (ex_request 2 ''b2'')))"
  "in_progress ex_booked 1 = None"
  "booked_for_day ex_booked d t =
     (if d = Some (Date 2024 6 10) \<and> t = Some (Time 10 0 0 0) then Some ''b1'' else None)"
  by (simp_all add: ex_booked_def save_request_sel booked_for_day_save ex_request_sel
      ex_two_drafts_sel booked_for_day_def)

lemma split_colon_examples:
  "split_colon ''admin:accept:b1'' = [''admin'', ''accept'', ''b1'']"
  "split_colon ''admin:deny:b1'' = [''admin'', ''deny'', ''b1'']"
  by simp_all

lemma store_ok_ex_booked: "store_ok ex_booked"
  by (simp add: store_ok_def ex_booked_sel ex_request_sel TIME_SLOTS_def)

lemma index_ok_ex_booked: "index_ok ex_booked"
  by (simp add: index_ok_def ex_booked_sel ex_request_sel)

lemma ex_form_state_sel:
  "in_progress (ex_form_state i) 7 = Some (ex_session i None)"
  "requests (ex_form_state i) = Map.empty"
  by (simp_all add: ex_form_state_def init_state_def)

lemma form_fields_examples:
  "form_fields e ! 0 = (''first_name'', ''Enter your first name:'', parse_required_text)"
  "form_fields e ! 12 = (''postal'', ''Postal code (format A2A 1B4):'', parse_postal_code)"
  by (simp_all add: form_fields_def)

lemma parse_examples:
  "parse_postal_code ''A2A 1B4'' = (True, PyStr ''A2A 1B4'', Some ''Please use the format A2A 1B4.'')"
  "parse_postal_code ''B2B 2C5'' = (True, PyStr ''B2B 2C5'', Some ''Please use the format A2A 1B4.'')"
  "\<not> fst (parse_postal_code ''A2A1B4'')"
  "parse_required_text ''Ada'' = (True, PyStr ''Ada'', Some ''This field is required.'')"
  by (simp_all add: postal_eval parse_required_text_def)

section \<open>The claims\<close>

subsection \<open>Field validators\<close>

text \<open>
  What line 273 accepts, for any cleaned text: seven characters, a space in fourth
  place, nothing but spaces and alphanumeric characters, and at least one of the latter.
\<close>

lemma postal_valid_iff:
  "postal_valid c \<longleftrightarrow>
     length c = 7 \<and> c ! 3 = CHR '' '' \<and>
     (\<forall>ch \<in> set c. ch = CHR '' '' \<or> isalnum_chr ch) \<and> (\<exists>ch \<in> set c. ch \<noteq> CHR '' '')"
  by (auto simp: postal_valid_def isalnum_def remove_spaces_def list_all_iff filter_empty_conv)

text \<open>
  The rule of the specification is sufficient: seven characters, a space in fourth place
  and six alphanumeric characters around it are accepted.
\<close>

lemma postal_valid_spec_rule:
  assumes "length c = 7" "c ! 3 = CHR '' ''" "\<forall>i < 7. i \<noteq> 3 \<longrightarrow> isalnum_chr (c ! i)"
  shows "postal_valid c"
proof -
  have sp: "\<not> isalnum_chr (CHR '' '')" by (simp add: isalnum_chr_def)
  have all: "\<forall>ch \<in> set c. ch = CHR '' '' \<or> isalnum_chr ch"
  proof
    fix ch assume "ch \<in> set c"
    then obtain i where i: "i < length c" "c ! i = ch" by (auto simp: in_set_conv_nth)
    with assms show "ch = CHR '' '' \<or> isalnum_chr ch" by (cases "i = 3") auto
  qed
  from assms have "isalnum_chr (c ! 0)" by simp
  with sp have "c ! 0 \<noteq> CHR '' ''" by auto
  moreover from assms(1) have "c ! 0 \<in> set c" by simp
  ultimately have "\<exists>ch \<in> set c. ch \<noteq> CHR '' ''" by blast
  with assms(1,2) all show ?thesis by (simp add: postal_valid_iff)
qed

text \<open>
  C8. The postal-code validator is claimed to succeed exactly when the cleaned text has
  seven characters, a space in fourth place and alphanumeric characters everywhere else.
  Line 273 deletes every space before it tests \<open>isalnum\<close>, not only the separator, so
  the letter \<open>A\<close>, five spaces and the letter \<open>B\<close> are accepted as a postal code
  although the characters in places 2, 3, 5 and 6 are not alphanumeric.
\<close>

theorem postal_interior_spaces_accepted:
  "parse_postal_code ''A     B'' = (True, PyStr ''A     B'', Some ''Please use the format A2A 1B4.'')
   \<and> length ''A     B'' = 7 \<and> ''A     B'' ! 3 = CHR '' '' \<and> \<not> isalnum_chr (''A     B'' ! 1)"
  by (simp add: postal_eval)

text \<open>
  C9 as stated: \<open>AAAA BBB\<close> is claimed valid. It has eight characters and is rejected.
\<close>

theorem postal_AAAA_BBB_rejected:
  "parse_postal_code ''AAAA BBB'' = (False, PyNone, Some ''Please use the format A2A 1B4.'')"
  by (simp add: postal_eval)

text \<open>
  C9, amended. \<open>A2A 1B4\<close> is valid and \<open>A2A1B4\<close> (no space) is invalid, as claimed;
  \<open>AAAA BBB\<close> is invalid, for its length; the seven-character \<open>AAA BBB\<close> is valid,
  so no alternation of letters and digits is enforced.
\<close>

theorem postal_examples:
  "fst (parse_postal_code ''A2A 1B4'') \<and> \<not> fst (parse_postal_code ''A2A1B4'')
   \<and> \<not> fst (parse_postal_code ''AAAA BBB'') \<and> fst (parse_postal_code ''AAA BBB'')"
  by (simp add: postal_eval)

subsection \<open>Slot registry\<close>

text \<open>
  C3. For every date \<open>d\<close>, \<open>available_slots\<close> returns the slots of the fixed
  five-element enumeration that the registry does not hold for \<open>d\<close>, each once and in
  the order of the enumeration.
\<close>

theorem available_slots_exact:
  "set (available_slots s d) =
     {t \<in> set TIME_SLOTS. \<not> (\<exists>m. booked_slots s d = Some m \<and> Some t \<in> dom m)}
   \<and> subseq (available_slots s d) TIME_SLOTS
   \<and> distinct (available_slots s d)
   \<and> TIME_SLOTS = [Time 8 0 0 0, Time 10 0 0 0, Time 12 0 0 0, Time 14 0 0 0, Time 16 0 0 0]"
proof -
  have "set (available_slots s d) =
     {t \<in> set TIME_SLOTS. \<not> (\<exists>m. booked_slots s d = Some m \<and> Some t \<in> dom m)}"
    by (auto simp: available_slots_def booked_for_day_def split: option.splits)
  moreover have "subseq (available_slots s d) TIME_SLOTS"
    by (simp add: available_slots_def)
  moreover have "distinct (available_slots s d)"
    by (simp add: available_slots_def TIME_SLOTS_facts)
  ultimately show ?thesis by (simp add: TIME_SLOTS_def)
qed

theorem available_slots_exact_witness:
  "available_slots ex_booked (Some (Date 2024 6 10)) =
     [Time 8 0 0 0, Time 12 0 0 0, Time 14 0 0 0, Time 16 0 0 0]
   \<and> subseq (available_slots ex_booked (Some (Date 2024 6 10))) TIME_SLOTS
   \<and> available_slots ex_booked (Some (Date 2024 6 11)) = TIME_SLOTS"
  using available_slots_exact [of ex_booked "Some (Date 2024 6 10)"]
  by (simp add: available_slots_def booked_for_day_def save_request_sel ex_defs TIME_SLOTS_def)

subsection \<open>Confirmation\<close>

text \<open>
  C1. A session of user \<open>uid\<close> holds the preview \<open>r\<close>, and the user presses the
  Confirm button of that preview (its callback data carries the preview's identifier).
  The handler tests the preview's (date, slot) pair against \<open>available_slots\<close> again.
  If the slot is still available, the pair is recorded in the registry under the
  booking's identifier, the booking is stored with status \<open>pending_admin\<close>, its
  identifier is in the user's list, and the session is gone. If not, registry, store and
  index are unchanged and the session's stage is \<open>time\<close>. When a second user holds a
  preview for the same pair, the first confirm succeeds and the second is rejected and
  routed to \<open>time\<close>. The preview's owner is the session's user in every reachable state
  (\<open>reachable_invariants\<close>, \<open>drafts_ok\<close>).
\<close>

theorem confirm_rechecks_slot:
  assumes sess: "in_progress s uid = Some p" and prev: "preview p = Some r"
    and data: "callback_arg data = Some (booking_id r)" and owner: "user_id r = uid"
  shows "(slot_available s r \<longrightarrow>
            (\<exists>s'. finalize_booking uid data s = Inr s' \<and>
               booked_for_day s' (appointment_date r) (time_slot r) = Some (booking_id r) \<and>
               requests s' (booking_id r) = Some (r\<lparr>status := ''pending_admin''\<rparr>) \<and>
               (\<exists>l. user_requests s' uid = Some l \<and> booking_id r \<in> set l) \<and>
               in_progress s' uid = None))
     \<and> (\<not> slot_available s r \<longrightarrow>
            (\<exists>s'. finalize_booking uid data s = Inr s' \<and>
               booked_slots s' = booked_slots s \<and> requests s' = requests s \<and>
               user_requests s' = user_requests s \<and>
               in_progress s' = (in_progress s)(uid \<mapsto> p\<lparr>stage := ''time''\<rparr>)))
     \<and> (\<forall>uid2 p2 r2 data2.
            slot_available s r \<and> uid2 \<noteq> uid \<and> in_progress s uid2 = Some p2 \<and>
            preview p2 = Some r2 \<and> callback_arg data2 = Some (booking_id r2) \<and>
            appointment_date r2 = appointment_date r \<and> time_slot r2 = time_slot r \<longrightarrow>
            (\<exists>s1 s2. finalize_booking uid data s = Inr s1 \<and>
               requests s1 (booking_id r) = Some (r\<lparr>status := ''pending_admin''\<rparr>) \<and>
               finalize_booking uid2 data2 s1 = Inr s2 \<and>
               booked_slots s2 = booked_slots s1 \<and> requests s2 = requests s1 \<and>
               user_requests s2 = user_requests s1 \<and>
               in_progress s2 = (in_progress s1)(uid2 \<mapsto> p2\<lparr>stage := ''time''\<rparr>)))"
proof (intro conjI impI allI)
  define q where "q = r\<lparr>status := ''pending_admin''\<rparr>"
  define s1 where "s1 = save_request q s"
  have q: "booking_id q = booking_id r" "user_id q = uid" "appointment_date q = appointment_date r"
    "time_slot q = time_slot r"
    by (simp_all add: q_def owner)
  note fin = finalize_booking_cases[OF sess prev data, folded q_def]
  have s1: "booked_for_day s1 (appointment_date r) (time_slot r) = Some (booking_id r)"
    "requests s1 (booking_id r) = Some q"
    "\<exists>l. user_requests s1 uid = Some l \<and> booking_id r \<in> set l"
    "in_progress s1 = (in_progress s)(uid := None)"
    by (simp_all add: s1_def booked_for_day_save save_request_sel q)
  {
    assume "slot_available s r"
    with fin s1 show "\<exists>s'. finalize_booking uid data s = Inr s' \<and>
               booked_for_day s' (appointment_date r) (time_slot r) = Some (booking_id r) \<and>
               requests s' (booking_id r) = Some q \<and>
               (\<exists>l. user_requests s' uid = Some l \<and> booking_id r \<in> set l) \<and>
               in_progress s' uid = None"
      by (simp add: s1_def)
  }
  {
    assume "\<not> slot_available s r"
    with fin show "\<exists>s'. finalize_booking uid data s = Inr s' \<and>
               booked_slots s' = booked_slots s \<and> requests s' = requests s \<and>
               user_requests s' = user_requests s \<and>
               in_progress s' = (in_progress s)(uid \<mapsto> p\<lparr>stage := ''time''\<rparr>)"
      by simp
  }
  {
    fix uid2 p2 r2 data2
    assume a: "slot_available s r \<and> uid2 \<noteq> uid \<and> in_progress s uid2 = Some p2 \<and>
            preview p2 = Some r2 \<and> callback_arg data2 = Some (booking_id r2) \<and>
            appointment_date r2 = appointment_date r \<and> time_slot r2 = time_slot r"
    with fin have f1: "finalize_booking uid data s = Inr s1" by (simp add: s1_def)
    from a s1(4) have sess2: "in_progress s1 uid2 = Some p2" by simp
    from a obtain t where t: "time_slot r = Some t"
      by (auto simp: slot_available_def split: option.splits)
    from a t s1(1) have "\<not> slot_available s1 r2"
      by (simp add: slot_available_def available_iff)
    with finalize_booking_cases[OF sess2, of r2 data2] a
    have "finalize_booking uid2 data2 s1 = Inr (s1\<lparr>in_progress := (in_progress s1)(uid2 \<mapsto> p2\<lparr>stage := ''time''\<rparr>)\<rparr>)"
      by simp
    with f1 s1(2) show "\<exists>s1 s2. finalize_booking uid data s = Inr s1 \<and>
               requests s1 (booking_id r) = Some q \<and>
               finalize_booking uid2 data2 s1 = Inr s2 \<and>
               booked_slots s2 = booked_slots s1 \<and> requests s2 = requests s1 \<and>
               user_requests s2 = user_requests s1 \<and>
               in_progress s2 = (in_progress s1)(uid2 \<mapsto> p2\<lparr>stage := ''time''\<rparr>)"
      by simp
  }
qed

theorem confirm_rechecks_slot_witness:
  "finalize_booking 1 ''confirm:b1'' ex_two_drafts = Inr ex_booked
   \<and> requests ex_booked ''b1'' = Some ((ex_request 1 ''b1'')\<lparr>status := ''pending_admin''\<rparr>)
   \<and> in_progress ex_booked 1 = None
   \<and> \<not> slot_available ex_booked (ex_request 2 ''b2'')
   \<and> (\<exists>s2. finalize_booking 2 ''confirm:b2'' ex_booked = Inr s2 \<and> requests s2 = requests ex_booked
         \<and> booked_slots s2 = booked_slots ex_booked
         \<and> map_option stage (in_progress s2 2) = Some ''time'')"
proof -
  have h1: "in_progress ex_two_drafts 1 = Some (ex_session 12 (Some (ex_request 1 ''b1'')))"
    and h2: "preview (ex_session 12 (Some (ex_request 1 ''b1''))) = Some (ex_request 1 ''b1'')"
    and h3: "callback_arg ''confirm:b1'' = Some (booking_id (ex_request 1 ''b1''))"
    and h4: "user_id (ex_request 1 ''b1'') = 1"
    by (simp_all add: ex_two_drafts_sel ex_session_sel ex_request_sel callback_arg_examples)
  note inst = confirm_rechecks_slot[OF h1 h2 h3 h4]
  have av: "slot_available ex_two_drafts (ex_request 1 ''b1'')" by (rule ex_two_drafts_available)
  from inst av obtain s' where s': "finalize_booking 1 ''confirm:b1'' ex_two_drafts = Inr s'"
    "requests s' ''b1'' = Some ((ex_request 1 ''b1'')\<lparr>status := ''pending_admin''\<rparr>)"
    "in_progress s' 1 = None"
    by (auto simp: ex_request_sel)
  from s'(1) finalize_booking_cases[OF h1 h2 h3] av have eq: "s' = ex_booked"
    by (simp add: ex_booked_def)
  have nav: "\<not> slot_available ex_booked (ex_request 2 ''b2'')"
    by (simp add: slot_available_def ex_request_sel available_iff ex_booked_def booked_for_day_save)
  have pre: "slot_available ex_two_drafts (ex_request 1 ''b1'') \<and> (2::int) \<noteq> 1 \<and>
      in_progress ex_two_drafts 2 = Some (ex_session 12 (Some (ex_request 2 ''b2''))) \<and>
      preview (ex_session 12 (Some (ex_request 2 ''b2''))) = Some (ex_request 2 ''b2'') \<and>
      callback_arg ''confirm:b2'' = Some (booking_id (ex_request 2 ''b2'')) \<and>
      appointment_date (ex_request 2 ''b2'') = appointment_date (ex_request 1 ''b1'') \<and>
      time_slot (ex_request 2 ''b2'') = time_slot (ex_request 1 ''b1'')"
    using av by (simp add: ex_two_drafts_sel ex_session_sel ex_request_sel callback_arg_examples)
  from inst[THEN conjunct2, THEN conjunct2, rule_format, OF pre]
  have "\<exists>s1 s2. finalize_booking 1 ''confirm:b1'' ex_two_drafts = Inr s1 \<and>
      finalize_booking 2 ''confirm:b2'' s1 = Inr s2 \<and> booked_slots s2 = booked_slots s1 \<and>
      requests s2 = requests s1 \<and>
      in_progress s2 = (in_progress s1)(2 \<mapsto> (ex_session 12 (Some (ex_request 2 ''b2'')))\<lparr>stage := ''time''\<rparr>)"
    by blast
  with s'(1) eq have "\<exists>s2. finalize_booking 2 ''confirm:b2'' ex_booked = Inr s2 \<and> requests s2 = requests ex_booked
         \<and> booked_slots s2 = booked_slots ex_booked
         \<and> map_option stage (in_progress s2 2) = Some ''time''"
    by auto
  with s' eq nav show ?thesis by simp
qed

subsection \<open>Reserving and releasing\<close>

text \<open>
  C2. The registry is written by \<open>_save_request\<close>, which \<open>_finalize_booking\<close> alone
  calls, behind its test of \<open>available_slots\<close>: reserving is the confirm of a preview.
  For a session whose preview asks for slot \<open>t\<close> of the fixed enumeration: while the
  (date, slot) pair is in the registry the confirm meets the conflict, reserves nothing
  (registry, store and index unchanged) and sends the session back to \<open>time\<close>; while
  the pair is absent the confirm records it under the preview's identifier; once the
  holder has been canceled, which releases the pair, the confirm with the different
  identifier succeeds. And whatever the event and the state, a pair that is held keeps
  its holder or becomes free: no reservation of it succeeds while the first stands.
\<close>

theorem reserve_guarded_by_confirm:
  assumes sess: "in_progress s uid = Some p" and prev: "preview p = Some r"
    and data: "callback_arg data = Some (booking_id r)"
    and slot: "time_slot r = Some t" "t \<in> set TIME_SLOTS"
  shows "(booked_for_day s (appointment_date r) (Some t) \<noteq> None \<longrightarrow>
          (\<exists>s'. finalize_booking uid data s = Inr s' \<and> booked_slots s' = booked_slots s \<and>
                requests s' = requests s \<and> user_requests s' = user_requests s \<and>
                in_progress s' = (in_progress s)(uid \<mapsto> p\<lparr>stage := ''time''\<rparr>)))
     \<and> (booked_for_day s (appointment_date r) (Some t) = None \<longrightarrow>
          (\<exists>s'. finalize_booking uid data s = Inr s' \<and>
                booked_for_day s' (appointment_date r) (Some t) = Some (booking_id r)))
     \<and> (\<forall>b1 r1. requests s b1 = Some r1 \<and> b1 \<noteq> booking_id r \<and>
            appointment_date r1 = appointment_date r \<and> time_slot r1 = Some t \<longrightarrow>
          (\<exists>s1 s2. cancel_request b1 s = (Some r1, s1) \<and>
             booked_for_day s1 (appointment_date r) (Some t) = None \<and>
             finalize_booking uid data s1 = Inr s2 \<and>
             booked_for_day s2 (appointment_date r) (Some t) = Some (booking_id r)))
     \<and> (\<forall>e ev d k b. booked_for_day s d k = Some b \<longrightarrow>
            booked_for_day (step e ev s) d k = Some b \<or> booked_for_day (step e ev s) d k = None)"
proof (intro conjI impI allI)
  have sa: "slot_available s' r \<longleftrightarrow> booked_for_day s' (appointment_date r) (Some t) = None" for s'
    by (simp add: slot_available_def slot available_iff)
  have saved: "booked_for_day (save_request (r\<lparr>status := st\<rparr>) s') (appointment_date r) (Some t)
      = Some (booking_id r)" for s' st
    by (simp add: booked_for_day_save slot)
  note fin = finalize_booking_cases[OF sess prev data]
  {
    assume "booked_for_day s (appointment_date r) (Some t) \<noteq> None"
    with fin sa show "\<exists>s'. finalize_booking uid data s = Inr s' \<and> booked_slots s' = booked_slots s \<and>
                requests s' = requests s \<and> user_requests s' = user_requests s \<and>
                in_progress s' = (in_progress s)(uid \<mapsto> p\<lparr>stage := ''time''\<rparr>)"
      by simp
  }
  {
    assume "booked_for_day s (appointment_date r) (Some t) = None"
    with fin sa saved show "\<exists>s'. finalize_booking uid data s = Inr s' \<and>
                booked_for_day s' (appointment_date r) (Some t) = Some (booking_id r)"
      by simp
  }
  {
    fix b1 r1
    assume a: "requests s b1 = Some r1 \<and> b1 \<noteq> booking_id r \<and>
            appointment_date r1 = appointment_date r \<and> time_slot r1 = Some t"
    obtain c s1 where cs: "cancel_request b1 s = (c, s1)" by (cases "cancel_request b1 s")
    from a have r1: "requests s b1 = Some r1" by simp
    note facts = cancel_request_Some[OF r1 cs]
    from a have free: "booked_for_day s1 (appointment_date r) (Some t) = None"
      by (simp add: facts(4))
    from sess have sess1: "in_progress s1 uid = Some p" by (simp add: facts(3))
    from finalize_booking_cases[OF sess1 prev data] sa[of s1] free
    have "finalize_booking uid data s1 = Inr (save_request (r\<lparr>status := ''pending_admin''\<rparr>) s1)"
      by simp
    with cs facts(1) free saved
    show "\<exists>s1 s2. cancel_request b1 s = (Some r1, s1) \<and>
             booked_for_day s1 (appointment_date r) (Some t) = None \<and>
             finalize_booking uid data s1 = Inr s2 \<and>
             booked_for_day s2 (appointment_date r) (Some t) = Some (booking_id r)"
      by simp
  }
  {
    fix e ev d k b
    assume "booked_for_day s d k = Some b"
    then show "booked_for_day (step e ev s) d k = Some b \<or> booked_for_day (step e ev s) d k = None"
      by (rule holder_never_replaced)
  }
qed

theorem reserve_guarded_by_confirm_witness:
  "booked_for_day ex_booked (Some (Date 2024 6 10)) (Some (Time 10 0 0 0)) = Some ''b1''
   \<and> (\<exists>s'. finalize_booking 2 ''confirm:b2'' ex_booked = Inr s' \<and>
          booked_slots s' = booked_slots ex_booked \<and> requests s' = requests ex_booked \<and>
          map_option stage (in_progress s' 2) = Some ''time'')
   \<and> (\<exists>s1 s2. cancel_request ''b1'' ex_booked =
            (Some ((ex_request 1 ''b1'')\<lparr>status := ''pending_admin''\<rparr>), s1) \<and>
          booked_for_day s1 (Some (Date 2024 6 10)) (Some (Time 10 0 0 0)) = None \<and>
          finalize_booking 2 ''confirm:b2'' s1 = Inr s2 \<and>
          booked_for_day s2 (Some (Date 2024 6 10)) (Some (Time 10 0 0 0)) = Some ''b2'')"
proof -
  have h1: "in_progress ex_booked 2 = Some (ex_session 12 (Some (ex_request 2 ''b2'')))"
    and h2: "preview (ex_session 12 (Some (ex_request 2 ''b2''))) = Some (ex_request 2 ''b2'')"
    and h3: "callback_arg ''confirm:b2'' = Some (booking_id (ex_request 2 ''b2''))"
    and h4: "time_slot (ex_request 2 ''b2'') = Some (Time 10 0 0 0)"
    and h5: "Time 10 0 0 0 \<in> set TIME_SLOTS"
    by (simp_all add: ex_booked_sel ex_session_sel ex_request_sel callback_arg_examples TIME_SLOTS_def)
  note inst = reserve_guarded_by_confirm[OF h1 h2 h3 h4 h5, unfolded ex_request_sel]
  have held: "booked_for_day ex_booked (Some (Date 2024 6 10)) (Some (Time 10 0 0 0)) = Some ''b1''"
    by (simp add: ex_booked_sel)
  then have ne: "booked_for_day ex_booked (Some (Date 2024 6 10)) (Some (Time 10 0 0 0)) \<noteq> None"
    by simp
  from inst[THEN conjunct1, rule_format, OF ne]
  have part1: "\<exists>s'. finalize_booking 2 ''confirm:b2'' ex_booked = Inr s' \<and>
          booked_slots s' = booked_slots ex_booked \<and> requests s' = requests ex_booked \<and>
          map_option stage (in_progress s' 2) = Some ''time''"
    by auto
  have pre: "requests ex_booked ''b1'' = Some ((ex_request 1 ''b1'')\<lparr>status := ''pending_admin''\<rparr>) \<and>
     ''b1'' \<noteq> ''b2'' \<and>
     appointment_date ((ex_request 1 ''b1'')\<lparr>status := ''pending_admin''\<rparr>) = Some (Date 2024 6 10) \<and>
     time_slot ((ex_request 1 ''b1'')\<lparr>status := ''pending_admin''\<rparr>) = Some (Time 10 0 0 0)"
    by (simp add: ex_booked_sel ex_request_sel)
  from inst[THEN conjunct2, THEN conjunct2, THEN conjunct1, rule_format, OF pre] held part1
  show ?thesis by simp
qed

subsection \<open>Admin decision\<close>

text \<open>
  C4 as stated: once a decision has set \<open>accepted\<close> or \<open>denied\<close>, no later decision
  changes the status. No handler reads the status before writing it: booking \<open>b1\<close>,
  accepted by one press, is denied by the next.
\<close>

theorem admin_overrides_accepted:
  "map_option status (requests ex_booked ''b1'') = Some ''pending_admin''
   \<and> map_option status (requests (step ex_env (AdminPress ''admin:accept:b1'') ex_booked) ''b1'')
       = Some ''accepted''
   \<and> map_option status
        (requests (step ex_env (AdminPress ''admin:deny:b1'')
                    (step ex_env (AdminPress ''admin:accept:b1'') ex_booked)) ''b1'')
       = Some ''denied''"
  by (simp add: settle_def admin_decision_split[OF split_colon_examples(1)]
      admin_decision_split[OF split_colon_examples(2)] ex_booked_sel)

text \<open>
  C4, amended. An admin decision on an identifier of the store sets that booking's status
  to \<open>accepted\<close> when the decision text is \<open>accept\<close> and to \<open>denied\<close> otherwise,
  whatever the status was, so a later decision overwrites an earlier one; a decision on an
  identifier that is not in the store changes nothing.
\<close>

theorem admin_decision_sets_status:
  assumes "split_colon data = [x, decision, bid]"
  shows "(\<forall>r. requests s bid = Some r \<longrightarrow>
           (\<exists>s'. admin_decision data s = Inr s' \<and>
              requests s' bid =
                Some (r\<lparr>status := (if decision = ''accept'' then ''accepted'' else ''denied'')\<rparr>)))
     \<and> (requests s bid = None \<longrightarrow> admin_decision data s = Inr s)"
  using assms by (simp add: admin_decision_split)

theorem admin_decision_sets_status_witness:
  "(\<exists>s'. admin_decision ''admin:deny:b1'' ex_booked = Inr s' \<and>
      map_option status (requests s' ''b1'') = Some ''denied'')
   \<and> admin_decision ''admin:deny:b1'' ex_two_drafts = Inr ex_two_drafts"
proof -
  note inst = admin_decision_sets_status[OF split_colon_examples(2)]
  have 1: "requests ex_booked ''b1'' = Some ((ex_request 1 ''b1'')\<lparr>status := ''pending_admin''\<rparr>)"
    by (simp add: ex_booked_sel)
  have 2: "requests ex_two_drafts ''b1'' = None" by (simp add: ex_two_drafts_sel)
  from inst[of ex_booked, THEN conjunct1, rule_format, OF 1]
    inst[of ex_two_drafts, THEN conjunct2, rule_format, OF 2]
  show ?thesis by auto
qed

text \<open>
  C10. An admin decision leaves the registry, the per-user index and the sessions as they
  are, keeps the keys of the store, changes no booking but the targeted one and of that
  one nothing but the status; so \<open>available_slots\<close> is the same for every date. The
  pair of a stored booking stays in the registry, and out of \<open>available_slots\<close>,
  through the decision and through every later sequence of events that holds no Cancel
  press for that booking (\<open>store_ok\<close> holds in every reachable state).
\<close>

theorem admin_decision_frame:
  assumes "s' = settle s (admin_decision data s)"
  shows "booked_slots s' = booked_slots s \<and> user_requests s' = user_requests s
     \<and> in_progress s' = in_progress s \<and> dom (requests s') = dom (requests s)
     \<and> (\<forall>b r. requests s b = Some r \<longrightarrow>
           (\<exists>r'. requests s' b = Some r' \<and> r'\<lparr>status := status r\<rparr> = r))
     \<and> (\<forall>x decision bid b. split_colon data = [x, decision, bid] \<and> b \<noteq> bid \<longrightarrow>
           requests s' b = requests s b)
     \<and> (\<forall>d. available_slots s' d = available_slots s d)
     \<and> (\<forall>b r t es. store_ok s \<and> requests s b = Some r \<and> time_slot r = Some t \<and>
           no_cancel_of b es \<longrightarrow>
           booked_for_day (run es s') (appointment_date r) (Some t) = Some b \<and>
           t \<notin> set (available_slots (run es s') (appointment_date r)))"
proof -
  note fr = admin_frame[OF assms]
  have others: "requests s' b = requests s b" if "split_colon data = [x, decision, bid]" "b \<noteq> bid"
    for x decision bid b
    using that assms by (simp add: admin_decision_split settle_def split: option.splits)
  have held: "booked_for_day (run es s') (appointment_date r) (Some t) = Some b \<and>
           t \<notin> set (available_slots (run es s') (appointment_date r))"
    if ok: "store_ok s" and b: "requests s b = Some r" "time_slot r = Some t" and nc: "no_cancel_of b es"
    for r t b es
  proof -
    from store_okD(2)[OF ok b(1)] b(2)
    have h: "booked_for_day s' (appointment_date r) (Some t) = Some b" by (auto simp: fr(7))
    from ok assms have ok': "store_ok s'" by (simp add: store_ok_admin)
    have "booked_for_day (run es s') (appointment_date r) (Some t) = Some b"
      by (rule held_until_cancel_run[OF ok' h nc])
    then show ?thesis by (simp add: available_iff)
  qed
  from fr(1,2,3,4,6) fr(5) others held show ?thesis by blast
qed

theorem admin_decision_frame_witness:
  "booked_slots (step ex_env (AdminPress ''admin:deny:b1'') ex_booked) = booked_slots ex_booked
   \<and> user_requests (step ex_env (AdminPress ''admin:deny:b1'') ex_booked) = user_requests ex_booked
   \<and> map_option status (requests (step ex_env (AdminPress ''admin:deny:b1'') ex_booked) ''b1'')
        = Some ''denied''
   \<and> Time 10 0 0 0 \<notin> set (available_slots
        (run [(ex_env, ConfirmPress 2 ''confirm:b2''), (ex_env, CancelPress ''cancel:zz'')]
           (step ex_env (AdminPress ''admin:deny:b1'') ex_booked))
        (Some (Date 2024 6 10)))"
proof -
  define s' where "s' = step ex_env (AdminPress ''admin:deny:b1'') ex_booked"
  then have s': "s' = settle ex_booked (admin_decision ''admin:deny:b1'' ex_booked)" by simp
  define es where "es = [(ex_env, ConfirmPress 2 ''confirm:b2''), (ex_env, CancelPress ''cancel:zz'')]"
  note inst = admin_decision_frame[OF s']
  have pre: "store_ok ex_booked \<and>
     requests ex_booked ''b1'' = Some ((ex_request 1 ''b1'')\<lparr>status := ''pending_admin''\<rparr>) \<and>
     time_slot ((ex_request 1 ''b1'')\<lparr>status := ''pending_admin''\<rparr>) = Some (Time 10 0 0 0) \<and>
     no_cancel_of ''b1'' es"
    by (simp add: store_ok_ex_booked ex_booked_sel ex_request_sel no_cancel_of_def es_def
        callback_arg_examples)
  from inst have last: "\<forall>b r t es. store_ok ex_booked \<and> requests ex_booked b = Some r \<and>
           time_slot r = Some t \<and> no_cancel_of b es \<longrightarrow>
           booked_for_day (run es s') (appointment_date r) (Some t) = Some b \<and>
           t \<notin> set (available_slots (run es s') (appointment_date r))" by blast
  from last[rule_format, OF pre]
  have a: "Time 10 0 0 0 \<notin> set (available_slots (run es s') (Some (Date 2024 6 10)))"
    by (simp add: ex_request_sel)
  have b: "map_option status (requests s' ''b1'') = Some ''denied''"
    by (simp add: s' settle_def admin_decision_split[OF split_colon_examples(2)] ex_booked_sel)
  from inst a b show ?thesis unfolding s'_def es_def by simp
qed

subsection \<open>Cancellation\<close>

text \<open>
  C6. A Cancel press for a booking of the store reports the cancellation, removes the
  booking from \<open>requests\<close> (no other entry changes) and from its user's list, and
  releases its slot, which then is in \<open>available_slots\<close> of its date. A Cancel press
  for an identifier that is not in the store answers \<open>Nothing to cancel.\<close>, returns
  normally and leaves the state as it was. The invariants \<open>store_ok\<close> and
  \<open>index_ok\<close> hold in every reachable state (\<open>reachable_invariants\<close>).
\<close>

theorem cancel_releases_slot:
  assumes "callback_arg data = Some bid"
  shows "(\<forall>r. store_ok s \<and> index_ok s \<and> requests s bid = Some r \<longrightarrow>
           (\<exists>s' t l. cancel_booking data s = Inr (''Booking canceled.'', s') \<and>
              requests s' bid = None \<and>
              (\<forall>b. b \<noteq> bid \<longrightarrow> requests s' b = requests s b) \<and>
              user_requests s (user_id r) = Some l \<and> bid \<in> set l \<and>
              user_requests s' (user_id r) = Some (remove1 bid l) \<and> bid \<notin> set (remove1 bid l) \<and>
              time_slot r = Some t \<and>
              booked_for_day s (appointment_date r) (Some t) = Some bid \<and>
              booked_for_day s' (appointment_date r) (Some t) = None \<and>
              t \<in> set (available_slots s' (appointment_date r))))
     \<and> (requests s bid = None \<longrightarrow> cancel_booking data s = Inr (''Nothing to cancel.'', s))"
proof (intro conjI allI impI)
  fix r
  assume a: "store_ok s \<and> index_ok s \<and> requests s bid = Some r"
  then have r: "requests s bid = Some r" and ok: "store_ok s" "index_ok s" by simp_all
  obtain c s' where cs: "cancel_request bid s = (c, s')" by (cases "cancel_request bid s")
  note facts = cancel_request_Some[OF r cs]
  from store_okD(2)[OF ok(1) r] obtain t where t: "time_slot r = Some t" "t \<in> set TIME_SLOTS"
    "booked_for_day s (appointment_date r) (Some t) = Some bid" by blast
  from index_okD(3)[OF ok(2) r] obtain l where l: "user_requests s (user_id r) = Some l" "bid \<in> set l"
    by blast
  from index_okD(1)[OF ok(2) l(1)] have "bid \<notin> set (remove1 bid l)" by simp
  moreover have "cancel_booking data s = Inr (''Booking canceled.'', s')"
    using assms cs facts(1) by (simp add: cancel_booking_def)
  moreover have "t \<in> set (available_slots s' (appointment_date r))"
    using t by (simp add: available_iff facts(4))
  ultimately show "\<exists>s' t l. cancel_booking data s = Inr (''Booking canceled.'', s') \<and>
              requests s' bid = None \<and>
              (\<forall>b. b \<noteq> bid \<longrightarrow> requests s' b = requests s b) \<and>
              user_requests s (user_id r) = Some l \<and> bid \<in> set l \<and>
              user_requests s' (user_id r) = Some (remove1 bid l) \<and> bid \<notin> set (remove1 bid l) \<and>
              time_slot r = Some t \<and>
              booked_for_day s (appointment_date r) (Some t) = Some bid \<and>
              booked_for_day s' (appointment_date r) (Some t) = None \<and>
              t \<in> set (available_slots s' (appointment_date r))"
    using t l by (auto simp: facts)
next
  assume "requests s bid = None"
  with assms show "cancel_booking data s = Inr (''Nothing to cancel.'', s)"
    by (simp add: cancel_booking_def cancel_request_None)
qed

theorem cancel_releases_slot_witness:
  "(\<exists>s'. cancel_booking ''cancel:b1'' ex_booked = Inr (''Booking canceled.'', s') \<and>
      requests s' ''b1'' = None \<and> user_requests s' 1 = Some [] \<and>
      Time 10 0 0 0 \<in> set (available_slots s' (Some (Date 2024 6 10))))
   \<and> Time 10 0 0 0 \<notin> set (available_slots ex_booked (Some (Date 2024 6 10)))
   \<and> cancel_booking ''cancel:zz'' ex_booked = Inr (''Nothing to cancel.'', ex_booked)"
proof -
  have pre: "store_ok ex_booked \<and> index_ok ex_booked \<and>
      requests ex_booked ''b1'' = Some ((ex_request 1 ''b1'')\<lparr>status := ''pending_admin''\<rparr>)"
    by (simp add: store_ok_ex_booked index_ok_ex_booked ex_booked_sel)
  from cancel_releases_slot[OF callback_arg_examples(3), of ex_booked, THEN conjunct1, rule_format, OF pre]
  have 1: "\<exists>s'. cancel_booking ''cancel:b1'' ex_booked = Inr (''Booking canceled.'', s') \<and>
      requests s' ''b1'' = None \<and> user_requests s' 1 = Some [] \<and>
      Time 10 0 0 0 \<in> set (available_slots s' (Some (Date 2024 6 10)))"
    by (auto simp: ex_request_sel ex_booked_sel)
  have "requests ex_booked ''zz'' = None" by (simp add: ex_booked_sel)
  with cancel_releases_slot[OF callback_arg_examples(4), of ex_booked]
  have 2: "cancel_booking ''cancel:zz'' ex_booked = Inr (''Nothing to cancel.'', ex_booked)" by simp
  have 3: "Time 10 0 0 0 \<notin> set (available_slots ex_booked (Some (Date 2024 6 10)))"
    by (simp add: available_iff ex_booked_sel)
  from 1 2 3 show ?thesis by simp
qed

subsection \<open>The form\<close>

text \<open>
  C7. A session is in the \<open>fields\<close> stage at index \<open>i\<close> and the validator of field
  \<open>i\<close> rejects the text: the handler returns the state it was given, so the index is
  still \<open>i\<close> and the values collected so far are the same.
\<close>

theorem rejected_input_keeps_session:
  assumes "in_progress s uid = Some p" "stage p = ''fields''"
    "current_index p = i" "i < length (form_fields e)"
    "form_fields e ! i = (key, prompt, parser)" "\<not> fst (parser msg_text)"
  shows "route_message e uid msg_text s = Inr s \<and> step e (TextFlow uid msg_text) s = s
     \<and> map_option current_index (in_progress (step e (TextFlow uid msg_text) s) uid) = Some i
     \<and> map_option field_values (in_progress (step e (TextFlow uid msg_text) s) uid)
          = Some (field_values p)"
proof -
  from assms(1,2) have "route_message e uid msg_text s = handle_form_field e uid msg_text s"
    by (simp add: route_message_def get_progress_def)
  with handle_form_field_invalid[OF assms(1,3,4,5,6)] assms(1,3) show ?thesis
    by (simp add: settle_def)
qed

theorem rejected_input_keeps_session_witness:
  "route_message ex_env 7 ''A2A1B4'' (ex_form_state 12) = Inr (ex_form_state 12)
   \<and> step ex_env (TextFlow 7 ''A2A1B4'') (ex_form_state 12) = ex_form_state 12"
proof -
  have 2: "stage (ex_session 12 None) = ''fields''"
    and 3: "current_index (ex_session 12 None) = 12"
    and 4: "12 < length (form_fields ex_env)"
    by (simp_all add: ex_session_sel length_form_fields)
  from rejected_input_keeps_session[OF ex_form_state_sel(1) 2 3 4 form_fields_examples(2)
      parse_examples(3)]
  show ?thesis by blast
qed

text \<open>
  C5. When the validator accepts the text of the last field, the session is claimed to
  advance to the confirmation stage, so that further text is no form input. Line 183
  returns after \<open>_prompt_confirmation\<close> without writing a stage or the index, though
  every other transition writes the next stage and line 184 the advanced index. After
  the postal code \<open>A2A 1B4\<close> the stage is still \<open>fields\<close> and the preview \<open>b3\<close>
  is pending; the next text \<open>B2B 2C5\<close> is validated as a postal code again, replaces
  the stored value and replaces the preview by a new one, \<open>b4\<close>, so that the Confirm
  button of \<open>b3\<close> finds no preview.
\<close>

theorem form_stays_in_fields:
  "map_option stage (in_progress (step ex_env (TextFlow 7 ''A2A 1B4'') (ex_form_state 12)) 7)
      = Some ''fields''
   \<and> map_option (\<lambda>p. map_option booking_id (preview p))
        (in_progress (step ex_env (TextFlow 7 ''A2A 1B4'') (ex_form_state 12)) 7) = Some (Some ''b3'')
   \<and> map_option (\<lambda>p. (field_values p ''postal'', map_option booking_id (preview p)))
        (in_progress
          (run [(ex_env, TextFlow 7 ''A2A 1B4''),
                (ex_env\<lparr>uuid4_hex := ''b4''\<rparr>, TextFlow 7 ''B2B 2C5'')] (ex_form_state 12)) 7)
      = Some (Some (PyStr ''B2B 2C5''), Some ''b4'')"
proof -
  define p1 where "p1 = (ex_session 12 None)\<lparr>field_values := [''postal'' \<mapsto> PyStr ''A2A 1B4'']\<rparr>"
  define s1 where "s1 = (ex_form_state 12)\<lparr>in_progress := (in_progress (ex_form_state 12))(7 \<mapsto>
      p1\<lparr>preview := Some (draft_request ex_env 7 p1)\<rparr>)\<rparr>"
  have a: "stage (ex_session 12 None) = ''fields''" "current_index (ex_session 12 None) = 12"
    "12 < length (form_fields e)" for e
    by (simp_all add: ex_session_sel length_form_fields)
  have "handle_form_field ex_env 7 ''A2A 1B4'' (ex_form_state 12) = Inr s1"
    using handle_form_field_valid[OF ex_form_state_sel(1) a(2,3) form_fields_examples(2) parse_examples(1)]
    by (simp add: length_form_fields s1_def p1_def ex_session_sel)
  then have step1: "step ex_env (TextFlow 7 ''A2A 1B4'') (ex_form_state 12) = s1"
    by (simp add: route_fields[OF ex_form_state_sel(1) a(1)] settle_def)
  define p2 where "p2 = p1\<lparr>preview := Some (draft_request ex_env 7 p1)\<rparr>"
  have s1p: "in_progress s1 7 = Some p2" by (simp add: s1_def p2_def)
  have b: "stage p2 = ''fields''" "current_index p2 = 12"
    by (simp_all add: p2_def p1_def ex_session_def current_index_def)
  define e2 where "e2 = ex_env\<lparr>uuid4_hex := ''b4''\<rparr>"
  define p3 where "p3 = p2\<lparr>field_values := (field_values p2)(''postal'' \<mapsto> PyStr ''B2B 2C5'')\<rparr>"
  have "handle_form_field e2 7 ''B2B 2C5'' s1 =
     Inr (s1\<lparr>in_progress := (in_progress s1)(7 \<mapsto> p3\<lparr>preview := Some (draft_request e2 7 p3)\<rparr>)\<rparr>)"
    using handle_form_field_valid[OF s1p b(2) a(3) form_fields_examples(2) parse_examples(2)]
    by (simp add: length_form_fields p3_def)
  then have step2: "step e2 (TextFlow 7 ''B2B 2C5'') s1 =
     s1\<lparr>in_progress := (in_progress s1)(7 \<mapsto> p3\<lparr>preview := Some (draft_request e2 7 p3)\<rparr>)\<rparr>"
    by (simp add: route_fields[OF s1p b(1)] settle_def)
  have "uuid4_hex e2 = ''b4''" "uuid4_hex ex_env = ''b3''" by (simp_all add: e2_def ex_env_def)
  with step1 step2 s1p b(1) show ?thesis
    by (simp add: e2_def[symmetric] draft_request_sel p3_def p2_def)
qed

text \<open>
  The part of C5 that the code keeps: an accepted text is stored under the key of the
  current field; for the first twelve fields the index then advances by one, and for the
  thirteenth the draft request, with status \<open>pending_user\<close>, becomes the session's
  preview.
\<close>

lemma accepted_input_stored:
  assumes sess: "in_progress s uid = Some p" and st: "stage p = ''fields''"
    and idx: "current_index p = i" "i < length (form_fields e)"
    and fld: "form_fields e ! i = (key, prompt, parser)"
    and ok: "parser msg_text = (True, v, err)"
  shows "length (form_fields e) = 13"
    and "i < 12 \<Longrightarrow>
          route_message e uid msg_text s =
            Inr (s\<lparr>in_progress := (in_progress s)(uid \<mapsto>
                   p\<lparr>field_values := (field_values p)(key \<mapsto> v), field_index := Some (i + 1)\<rparr>)\<rparr>)"
    and "i = 12 \<Longrightarrow>
          \<exists>draft. route_message e uid msg_text s =
                   Inr (s\<lparr>in_progress := (in_progress s)(uid \<mapsto>
                     p\<lparr>field_values := (field_values p)(key \<mapsto> v), preview := Some draft\<rparr>)\<rparr>) \<and>
             draft = draft_request e uid (p\<lparr>field_values := (field_values p)(key \<mapsto> v)\<rparr>) \<and>
             status draft = ''pending_user'' \<and> user_id draft = uid"
proof -
  note hv = handle_form_field_valid[OF sess idx fld ok]
  note rt = route_fields[OF sess st, of e msg_text]
  show len: "length (form_fields e) = 13" by (rule length_form_fields)
  show "route_message e uid msg_text s =
            Inr (s\<lparr>in_progress := (in_progress s)(uid \<mapsto>
                   p\<lparr>field_values := (field_values p)(key \<mapsto> v), field_index := Some (i + 1)\<rparr>)\<rparr>)"
    if "i < 12"
    using that hv rt by (simp add: len)
  show "\<exists>draft. route_message e uid msg_text s =
                   Inr (s\<lparr>in_progress := (in_progress s)(uid \<mapsto>
                     p\<lparr>field_values := (field_values p)(key \<mapsto> v), preview := Some draft\<rparr>)\<rparr>) \<and>
             draft = draft_request e uid (p\<lparr>field_values := (field_values p)(key \<mapsto> v)\<rparr>) \<and>
             status draft = ''pending_user'' \<and> user_id draft = uid"
    if "i = 12"
    using that hv rt by (simp add: len draft_request_sel)
qed

end
